theory Spec2Isabelle
  imports Complex_Main "HOL-Library.Char_ord" "HOL-Library.List_Lexorder"
    "HOL-Library.Product_Lexorder" "HOL-Library.Sublist" "HOL-Library.Multiset"
begin

section \<open>Curva A: a shallow embedding of \<open>curva_a_ml.py\<close>\<close>

text \<open>
  The development follows the Python module function by function. A Python \<open>str\<close> is a
  \<open>string\<close> whose characters are the code points U+0000 to U+00FF (the Latin-1 block, which
  holds every character the module's patterns and literals name). An exception is a value
  of \<open>py_error\<close>; a \<open>try/except\<close> is a case distinction on the sum. A Python \<open>float\<close> is a
  \<open>pyfloat\<close>: a binary64 value as mantissa and exponent, an infinity, or NaN.
\<close>

subsection \<open>Characters and the \<open>str\<close> methods the module calls\<close>

datatype py_error = ValueError | OverflowError | PlaywrightError

definition in_range :: "char \<Rightarrow> char \<Rightarrow> char \<Rightarrow> bool" where
  "in_range lo hi c = (lo \<le> c \<and> c \<le> hi)"

text \<open>\<open>str.isspace\<close> on one character: TAB to CR, FS to US, space, NEL and NBSP.\<close>

definition py_isspace :: "char \<Rightarrow> bool" where
  "py_isspace c = (in_range (CHR 0x09) (CHR 0x0D) c \<or> in_range (CHR 0x1C) (CHR 0x20) c
     \<or> c = CHR 0x85 \<or> c = CHR 0xA0)"

text \<open>The regular expression class \<open>\d\<close> (Unicode category Nd; in Latin-1 the ASCII digits).\<close>

definition is_digit :: "char \<Rightarrow> bool" where
  "is_digit c = in_range (CHR ''0'') (CHR ''9'') c"

definition is_upper_az :: "char \<Rightarrow> bool" where
  "is_upper_az c = in_range (CHR ''A'') (CHR ''Z'') c"

definition is_lower_az :: "char \<Rightarrow> bool" where
  "is_lower_az c = in_range (CHR ''a'') (CHR ''z'') c"

text \<open>The uppercase letters U+00C0 to U+00DE but the multiplication sign, and their
  lowercase partners U+00E0 to U+00FE but the division sign.\<close>

definition is_upper_latin :: "char \<Rightarrow> bool" where
  "is_upper_latin c = (in_range (CHR 0xC0) (CHR 0xDE) c \<and> c \<noteq> CHR 0xD7)"

definition is_lower_latin :: "char \<Rightarrow> bool" where
  "is_lower_latin c = (in_range (CHR 0xE0) (CHR 0xFE) c \<and> c \<noteq> CHR 0xF7)"

text \<open>The class \<open>\w\<close>: alphanumeric characters (letters, digits, the superscript digits
  and the vulgar fractions count as numeric) and the underscore.\<close>

definition is_word :: "char \<Rightarrow> bool" where
  "is_word c = (is_digit c \<or> is_upper_az c \<or> is_lower_az c \<or> c = CHR ''_''
     \<or> c = CHR 0xAA \<or> c = CHR 0xB2 \<or> c = CHR 0xB3 \<or> c = CHR 0xB5 \<or> c = CHR 0xB9
     \<or> c = CHR 0xBA \<or> in_range (CHR 0xBC) (CHR 0xBE) c
     \<or> (in_range (CHR 0xC0) (CHR 0xFF) c \<and> c \<noteq> CHR 0xD7 \<and> c \<noteq> CHR 0xF7))"

definition shift_char :: "char \<Rightarrow> int \<Rightarrow> char" where
  "shift_char c k = char_of (of_char c + k)"

text \<open>The one-character case mappings. The micro sign and y with diaeresis have capitals
  beyond U+00FF; they are left as they are, which no pattern or literal of the module can
  tell apart (both forms are word characters outside every class the module names).\<close>

definition upper1 :: "char \<Rightarrow> char" where
  "upper1 c = (if is_lower_az c \<or> is_lower_latin c then shift_char c (- 32) else c)"

definition lower1 :: "char \<Rightarrow> char" where
  "lower1 c = (if is_upper_az c \<or> is_upper_latin c then shift_char c 32 else c)"

text \<open>\<open>str.upper\<close>: the sharp s becomes two letters.\<close>

definition py_upper :: "string \<Rightarrow> string" where
  "py_upper s = concat (map (\<lambda>c. if c = CHR 0xDF then ''SS'' else [upper1 c]) s)"

definition py_lower :: "string \<Rightarrow> string" where
  "py_lower s = map lower1 s"

definition is_cased :: "char \<Rightarrow> bool" where
  "is_cased c = (is_upper_az c \<or> is_lower_az c \<or> is_upper_latin c \<or> is_lower_latin c
     \<or> c = CHR 0xDF \<or> c = CHR 0xFF \<or> c = CHR 0xAA \<or> c = CHR 0xB5 \<or> c = CHR 0xBA)"

text \<open>\<open>str.title\<close>: a cased character after a cased one is lowered, any other cased
  character is title-cased; the flag is whether the previous character was cased.\<close>

fun title_from :: "bool \<Rightarrow> string \<Rightarrow> string" where
  "title_from prev [] = []"
| "title_from prev (c # cs) =
     (if prev then [lower1 c] else if c = CHR 0xDF then ''Ss'' else [upper1 c])
       @ title_from (is_cased c) cs"

definition py_title :: "string \<Rightarrow> string" where
  "py_title s = title_from False s"

definition py_strip :: "string \<Rightarrow> string" where
  "py_strip s = rev (dropWhile py_isspace (rev (dropWhile py_isspace s)))"

text \<open>\<open>sub in s\<close> for strings.\<close>

fun contains :: "string \<Rightarrow> string \<Rightarrow> bool" where
  "contains sub [] = (sub = [])"
| "contains sub (c # cs) = (prefix sub (c # cs) \<or> contains sub cs)"

text \<open>\<open>s.replace(old, new)\<close> for a non-empty \<open>old\<close>: the occurrences are replaced from
  the left, without overlap.\<close>

function py_replace :: "string \<Rightarrow> string \<Rightarrow> string \<Rightarrow> string" where
  "py_replace old new s =
     (if s = [] \<or> old = [] then s
      else if prefix old s then new @ py_replace old new (drop (length old) s)
      else hd s # py_replace old new (tl s))"
  by pat_completeness auto
termination
  by (relation "measure (\<lambda>(old, new, s). length s)") auto

text \<open>\<open>sep.join(parts)\<close>.\<close>

fun py_join :: "string \<Rightarrow> string list \<Rightarrow> string" where
  "py_join sep [] = []"
| "py_join sep [p] = p"
| "py_join sep (p # q # ps) = p @ sep @ py_join sep (q # ps)"

subsection \<open>Floats\<close>

text \<open>
  A \<open>float\<close> is an IEEE binary64 value: \<open>Fin m e\<close> stands for \<open>m * 2^e\<close>, with \<open>m\<close> of at
  most 53 bits. \<open>double_of_frac neg n d\<close> rounds the fraction \<open>n / d\<close> (negated when \<open>neg\<close>)
  to the nearest binary64 value, ties to even, as the conversion of a decimal string and
  every arithmetic operation do: with \<open>x\<close> the binary exponent of the fraction, but at least
  \<open>-1022\<close> (below that the values are subnormal), the mantissa is \<open>n / d * 2^(52 - x)\<close>
  rounded to an integer, and the outcome is an infinity once the rounded value reaches
  \<open>2^1024\<close>, that is when \<open>x\<close> exceeds 1023 or rounding at \<open>x = 1023\<close> carries into \<open>2^53\<close>.
  The sign of zero is not kept: nothing in the module observes it.
\<close>

datatype pyfloat = Fin int int | PInf | NInf | NaN

fun float_value :: "pyfloat \<Rightarrow> rat option" where
  "float_value (Fin m e) = Some (of_int m * 2 powi e)"
| "float_value _ = None"

text \<open>The number of binary digits of a positive integer.\<close>

function bitlen :: "int \<Rightarrow> int" where
  "bitlen n = (if n \<le> 0 then 0 else 1 + bitlen (n div 2))"
  by pat_completeness auto
termination
  by (relation "measure nat") auto

declare bitlen.simps [simp del]

text \<open>\<open>ilog2_frac n d\<close> is the integer \<open>x\<close> with \<open>2^x \<le> n / d < 2^(x+1)\<close>, for positive
  \<open>n\<close> and \<open>d\<close>: the difference of the bit lengths, or one less.\<close>

definition ilog2_frac :: "int \<Rightarrow> int \<Rightarrow> int" where
  "ilog2_frac n d =
     (let k = bitlen n - bitlen d
      in if (if 0 \<le> k then 2 ^ nat k * d \<le> n else d \<le> n * 2 ^ nat (- k)) then k else k - 1)"

text \<open>\<open>n / d\<close> rounded to the nearest integer, ties to even.\<close>

definition round_div :: "int \<Rightarrow> int \<Rightarrow> int" where
  "round_div n d =
     (let q = n div d; r = n mod d
      in if 2 * r < d then q else if d < 2 * r then q + 1 else if even q then q else q + 1)"

definition double_of_frac :: "bool \<Rightarrow> int \<Rightarrow> int \<Rightarrow> pyfloat" where
  "double_of_frac neg n d =
     (if n = 0 then Fin 0 0
      else let x = max (ilog2_frac n d) (- 1022);
               m = (if x \<le> 52 then round_div (n * 2 ^ nat (52 - x)) d
                    else round_div n (d * 2 ^ nat (x - 52)))
           in if 1023 < x \<or> (x = 1023 \<and> 2 ^ 53 \<le> m) then (if neg then NInf else PInf)
              else Fin (if neg then - m else m) (x - 52))"

text \<open>The float nearest to \<open>i * 2^e\<close>.\<close>

definition double_of_scaled :: "int \<Rightarrow> int \<Rightarrow> pyfloat" where
  "double_of_scaled i e =
     (if 0 \<le> e then double_of_frac (i < 0) (\<bar>i\<bar> * 2 ^ nat e) 1
      else double_of_frac (i < 0) \<bar>i\<bar> (2 ^ nat (- e)))"

text \<open>\<open>a - b\<close>, \<open>abs(a)\<close>, \<open>a < b\<close> and \<open>a.is_integer()\<close> on floats. The difference of two
  finite floats is computed exactly, on the smaller of the two exponents, and rounded.\<close>

fun fsub :: "pyfloat \<Rightarrow> pyfloat \<Rightarrow> pyfloat" where
  "fsub (Fin m1 e1) (Fin m2 e2) =
     (let e = min e1 e2
      in double_of_scaled (m1 * 2 ^ nat (e1 - e) - m2 * 2 ^ nat (e2 - e)) e)"
| "fsub NaN _ = NaN"
| "fsub _ NaN = NaN"
| "fsub PInf PInf = NaN"
| "fsub NInf NInf = NaN"
| "fsub PInf _ = PInf"
| "fsub NInf _ = NInf"
| "fsub (Fin m e) PInf = NInf"
| "fsub (Fin m e) NInf = PInf"

fun fabs :: "pyfloat \<Rightarrow> pyfloat" where
  "fabs (Fin m e) = Fin \<bar>m\<bar> e"
| "fabs PInf = PInf"
| "fabs NInf = PInf"
| "fabs NaN = NaN"

fun fless :: "pyfloat \<Rightarrow> pyfloat \<Rightarrow> bool" where
  "fless (Fin m1 e1) (Fin m2 e2) =
     (let e = min e1 e2 in m1 * 2 ^ nat (e1 - e) < m2 * 2 ^ nat (e2 - e))"
| "fless NaN _ = False"
| "fless _ NaN = False"
| "fless NInf NInf = False"
| "fless NInf _ = True"
| "fless _ NInf = False"
| "fless PInf _ = False"
| "fless (Fin m e) PInf = True"

fun is_integer :: "pyfloat \<Rightarrow> bool" where
  "is_integer (Fin m e) = (0 \<le> e \<or> m mod 2 ^ nat (- e) = 0)"
| "is_integer _ = False"

text \<open>\<open>int(x)\<close> truncates towards zero; it raises on an infinity and on NaN.\<close>

fun py_int_of_float :: "pyfloat \<Rightarrow> py_error + int" where
  "py_int_of_float (Fin m e) =
     Inr (if 0 \<le> e then m * 2 ^ nat e
          else if 0 \<le> m then m div 2 ^ nat (- e) else - ((- m) div 2 ^ nat (- e)))"
| "py_int_of_float NaN = Inl ValueError"
| "py_int_of_float _ = Inl OverflowError"

text \<open>\<open>str(n)\<close> of an integer.\<close>

definition digit_char :: "int \<Rightarrow> char" where
  "digit_char d = char_of (of_char (CHR ''0'') + d)"

function str_of_nat :: "int \<Rightarrow> string" where
  "str_of_nat n = (if n < 10 then [digit_char n] else str_of_nat (n div 10) @ [digit_char (n mod 10)])"
  by pat_completeness auto
termination
  by (relation "measure nat") auto

declare str_of_nat.simps [simp del]

definition str_of_int :: "int \<Rightarrow> string" where
  "str_of_int i = (if i < 0 then CHR ''-'' # str_of_nat (- i) else str_of_nat i)"

subsection \<open>\<open>float(s)\<close> of a string\<close>

text \<open>
  \<open>float\<close> strips whitespace, accepts underscores between digits, and then reads an
  optional sign followed by \<open>inf\<close>, \<open>infinity\<close> or \<open>nan\<close> (in any case), or by a decimal
  number with an optional exponent. Anything else raises \<open>ValueError\<close>.
\<close>

definition digit_val :: "char \<Rightarrow> int" where
  "digit_val c = of_char c - of_char (CHR ''0'')"

definition int_of_digits :: "string \<Rightarrow> int" where
  "int_of_digits ds = foldl (\<lambda>n c. 10 * n + digit_val c) 0 ds"

text \<open>Every underscore stands between two digits.\<close>

fun underscores_ok :: "char \<Rightarrow> string \<Rightarrow> bool" where
  "underscores_ok prev [] = (prev \<noteq> CHR ''_'')"
| "underscores_ok prev (c # cs) =
     ((if c = CHR ''_'' then is_digit prev else if prev = CHR ''_'' then is_digit c else True)
      \<and> underscores_ok c cs)"

text \<open>The exponent part: empty, or \<open>e\<close>, an optional sign and at least one digit, up to
  the end of the string.\<close>

definition parse_exponent :: "string \<Rightarrow> int option" where
  "parse_exponent s =
     (case s of
        [] \<Rightarrow> Some 0
      | c # r \<Rightarrow>
          if c = CHR ''e'' \<or> c = CHR ''E'' then
            (let neg = (r \<noteq> [] \<and> hd r = CHR ''-'');
                 ds = (if r \<noteq> [] \<and> (hd r = CHR ''-'' \<or> hd r = CHR ''+'') then tl r else r)
             in if ds \<noteq> [] \<and> list_all is_digit ds
                then Some (if neg then - int_of_digits ds else int_of_digits ds)
                else None)
          else None)"

text \<open>The unsigned decimal number \<open>digits * 10^x\<close>: its digits as a number and
  the power of ten \<open>x\<close>.\<close>

definition parse_decimal :: "string \<Rightarrow> (int \<times> int) option" where
  "parse_decimal s =
     (let d1 = takeWhile is_digit s;
          r1 = dropWhile is_digit s;
          dot = (r1 \<noteq> [] \<and> hd r1 = CHR ''.'');
          d2 = (if dot then takeWhile is_digit (tl r1) else []);
          r2 = (if dot then dropWhile is_digit (tl r1) else r1)
      in if d1 @ d2 = [] then None
         else (case parse_exponent r2 of
                 None \<Rightarrow> None
               | Some e \<Rightarrow> Some (int_of_digits (d1 @ d2), e - int (length d2))))"

text \<open>The float nearest to \<open>n * 10^x\<close>: what a decimal literal or string denotes.\<close>

definition double_of_decimal :: "int \<Rightarrow> int \<Rightarrow> pyfloat" where
  "double_of_decimal n x =
     (if 0 \<le> x then double_of_frac False (n * 10 ^ nat x) 1
      else double_of_frac False n (10 ^ nat (- x)))"

definition parse_unsigned :: "string \<Rightarrow> pyfloat option" where
  "parse_unsigned s =
     (if py_lower s = ''inf'' \<or> py_lower s = ''infinity'' then Some PInf
      else if py_lower s = ''nan'' then Some NaN
      else map_option (\<lambda>(n, x). double_of_decimal n x) (parse_decimal s))"

fun fneg :: "pyfloat \<Rightarrow> pyfloat" where
  "fneg (Fin m e) = Fin (- m) e"
| "fneg PInf = NInf"
| "fneg NInf = PInf"
| "fneg NaN = NaN"

text \<open>The whitespace \<open>float\<close> strips: the ASCII whitespace, NEL and NBSP (but not the
  separators FS to US, which \<open>str.strip\<close> does strip).\<close>

definition float_space :: "char \<Rightarrow> bool" where
  "float_space c = (in_range (CHR 0x09) (CHR 0x0D) c \<or> c = CHR 0x20 \<or> c = CHR 0x85 \<or> c = CHR 0xA0)"

definition py_float :: "string \<Rightarrow> py_error + pyfloat" where
  "py_float s =
     (let t = rev (dropWhile float_space (rev (dropWhile float_space s))) in
      if \<not> underscores_ok (CHR 0x00) t then Inl ValueError
      else let u = filter (\<lambda>c. c \<noteq> CHR ''_'') t;
               neg = (u \<noteq> [] \<and> hd u = CHR ''-'');
               body = (if u \<noteq> [] \<and> (hd u = CHR ''-'' \<or> hd u = CHR ''+'') then tl u else u)
           in (case parse_unsigned body of
                 None \<Rightarrow> Inl ValueError
               | Some x \<Rightarrow> Inr (if neg then fneg x else x)))"

subsection \<open>\<open>parse_preco_texto_to_float\<close>\<close>

text \<open>
  \<open>replace(".", "")\<close> and \<open>replace(",", ".")\<close> act on single characters. The argument is
  \<open>None\<close> or a string; the bare \<open>except\<close> turns every exception of the conversion into
  \<open>None\<close>, so the function itself has no exceptional result.
\<close>

definition remove_char :: "char \<Rightarrow> string \<Rightarrow> string" where
  "remove_char x s = filter (\<lambda>c. c \<noteq> x) s"

definition replace_char :: "char \<Rightarrow> char \<Rightarrow> string \<Rightarrow> string" where
  "replace_char x y s = map (\<lambda>c. if c = x then y else c) s"

definition parse_preco_texto_to_float :: "string option \<Rightarrow> py_error + pyfloat option" where
  "parse_preco_texto_to_float preco_txt =
     (case preco_txt of
        None \<Rightarrow> Inr None
      | Some t \<Rightarrow>
          if t = [] then Inr None
          else (case py_float (replace_char (CHR '','') (CHR ''.'') (remove_char (CHR ''.'') t)) of
                  Inl e \<Rightarrow> Inr None
                | Inr x \<Rightarrow> Inr (Some x)))"

subsection \<open>Regular expressions\<close>

text \<open>
  The patterns of the module use character classes, bounded and unbounded greedy
  repetition of a class, the word boundary \<open>\b\<close>, sequence, alternation and groups.
  \<open>rx_match\<close> is the backtracking matcher of \<open>re\<close>: from a position it returns every way
  the pattern can match, as end position and captured groups, in the order \<open>re\<close> tries
  them (a greedy repetition longest first, an alternation left to right), so that the
  head of the list is the match \<open>re\<close> reports. With the flag \<open>re.I\<close> a character matches a
  class when it, its lowercase or its uppercase does.
\<close>

datatype cls = Lit char | Rng char char | Digit | Space

fun cls_has :: "cls \<Rightarrow> char \<Rightarrow> bool" where
  "cls_has (Lit x) c = (c = x)"
| "cls_has (Rng lo hi) c = in_range lo hi c"
| "cls_has Digit c = is_digit c"
| "cls_has Space c = py_isspace c"

definition cls_ok :: "bool \<Rightarrow> cls list \<Rightarrow> char \<Rightarrow> bool" where
  "cls_ok ic cs c =
     (list_ex (\<lambda>a. cls_has a c) cs
      \<or> (ic \<and> (list_ex (\<lambda>a. cls_has a (lower1 c)) cs \<or> list_ex (\<lambda>a. cls_has a (upper1 c)) cs)))"

datatype rx =
    Ch "cls list"
  | Rep "cls list" nat "nat option"
  | WordB
  | Eps
  | Seq rx rx
  | Alt rx rx
  | Grp nat rx

type_synonym caps = "(nat \<times> nat \<times> nat) list"

definition word_at :: "string \<Rightarrow> nat \<Rightarrow> bool" where
  "word_at t i = (i < length t \<and> is_word (t ! i))"

definition word_boundary :: "string \<Rightarrow> nat \<Rightarrow> bool" where
  "word_boundary t i = ((0 < i \<and> word_at t (i - 1)) \<noteq> word_at t i)"

text \<open>The end positions of \<open>cs{mn,mx}\<close> from \<open>i\<close>, longest first.\<close>

definition rep_ends :: "bool \<Rightarrow> string \<Rightarrow> cls list \<Rightarrow> nat \<Rightarrow> nat option \<Rightarrow> nat \<Rightarrow> nat list" where
  "rep_ends ic t cs mn mx i =
     (let run = length (takeWhile (cls_ok ic cs) (drop i t));
          k = (case mx of None \<Rightarrow> run | Some m \<Rightarrow> min run m)
      in if k < mn then [] else map (\<lambda>n. i + n) (rev [mn..<Suc k]))"

fun rx_match :: "bool \<Rightarrow> string \<Rightarrow> rx \<Rightarrow> nat \<times> caps \<Rightarrow> (nat \<times> caps) list" where
  "rx_match ic t (Ch cs) (i, g) = (if i < length t \<and> cls_ok ic cs (t ! i) then [(Suc i, g)] else [])"
| "rx_match ic t (Rep cs mn mx) (i, g) = map (\<lambda>j. (j, g)) (rep_ends ic t cs mn mx i)"
| "rx_match ic t WordB (i, g) = (if word_boundary t i then [(i, g)] else [])"
| "rx_match ic t Eps (i, g) = [(i, g)]"
| "rx_match ic t (Seq a b) (i, g) = concat (map (rx_match ic t b) (rx_match ic t a (i, g)))"
| "rx_match ic t (Alt a b) (i, g) = rx_match ic t a (i, g) @ rx_match ic t b (i, g)"
| "rx_match ic t (Grp n a) (i, g) = map (\<lambda>(j, h). (j, (n, i, j) # h)) (rx_match ic t a (i, g))"

definition seqs :: "rx list \<Rightarrow> rx" where
  "seqs rs = foldr Seq rs Eps"

definition alts :: "rx \<Rightarrow> rx list \<Rightarrow> rx" where
  "alts r rs = foldl Alt r rs"

definition lit :: "string \<Rightarrow> rx" where
  "lit w = seqs (map (\<lambda>c. Ch [Lit c]) w)"

text \<open>A match: start, end and groups. \<open>re.search\<close> tries the start positions from the
  left; \<open>re.finditer\<close> goes on from the end of the previous match. (None of the module's
  patterns matches the empty string.)\<close>

type_synonym rmatch = "nat \<times> nat \<times> caps"

fun scan :: "bool \<Rightarrow> string \<Rightarrow> rx \<Rightarrow> nat list \<Rightarrow> rmatch option" where
  "scan ic t r [] = None"
| "scan ic t r (i # starts) =
     (case rx_match ic t r (i, []) of
        [] \<Rightarrow> scan ic t r starts
      | (j, g) # other \<Rightarrow> Some (i, j, g))"

definition re_search :: "bool \<Rightarrow> rx \<Rightarrow> string \<Rightarrow> rmatch option" where
  "re_search ic r t = scan ic t r [0..<Suc (length t)]"

fun scan_all :: "bool \<Rightarrow> string \<Rightarrow> rx \<Rightarrow> nat list \<Rightarrow> nat \<Rightarrow> rmatch list" where
  "scan_all ic t r [] nxt = []"
| "scan_all ic t r (i # starts) nxt =
     (if i < nxt then scan_all ic t r starts nxt
      else (case rx_match ic t r (i, []) of
              [] \<Rightarrow> scan_all ic t r starts nxt
            | (j, g) # other \<Rightarrow> (i, j, g) # scan_all ic t r starts (max j (Suc i))))"

definition re_finditer :: "bool \<Rightarrow> rx \<Rightarrow> string \<Rightarrow> rmatch list" where
  "re_finditer ic r t = scan_all ic t r [0..<Suc (length t)] 0"

definition slice :: "string \<Rightarrow> nat \<Rightarrow> nat \<Rightarrow> string" where
  "slice t a b = take (b - a) (drop a t)"

text \<open>\<open>m.group(0)\<close> and \<open>m.group(n)\<close>; every group the module reads takes part in the
  match, so the \<open>None\<close> of an unmatched group does not arise.\<close>

definition group0 :: "string \<Rightarrow> rmatch \<Rightarrow> string" where
  "group0 t m = slice t (fst m) (fst (snd m))"

definition group :: "string \<Rightarrow> rmatch \<Rightarrow> nat \<Rightarrow> string" where
  "group t m n = (case map_of (snd (snd m)) n of None \<Rightarrow> [] | Some (a, b) \<Rightarrow> slice t a b)"

text \<open>\<open>re.sub(r, new, t)\<close>: the text between the matches, with \<open>new\<close> for each match.\<close>

fun splice :: "string \<Rightarrow> string \<Rightarrow> nat \<Rightarrow> rmatch list \<Rightarrow> string" where
  "splice t new k [] = drop k t"
| "splice t new k ((i, j, g) # ms) = slice t k i @ new @ splice t new j ms"

definition re_sub :: "bool \<Rightarrow> rx \<Rightarrow> string \<Rightarrow> string \<Rightarrow> string" where
  "re_sub ic r new t = splice t new 0 (re_finditer ic r t)"

subsection \<open>\<open>title_to_user_query\<close>\<close>

definition BRANDS :: "string list" where
  "BRANDS = [''LIQUI MOLY'', ''ALPINESTARS'', ''CASTROL'', ''TIRRENO'', ''MOTUL'', ''FRAM'', ''DID'']"

text \<open>\<open>sorted(BRANDS, key=len, reverse=True)\<close>: a stable sort, the longest first.\<close>

definition brands_sorted :: "string list" where
  "brands_sorted = sort_key (\<lambda>b. - int (length b)) BRANDS"

definition AZ :: cls where
  "AZ = Rng (CHR ''A'') (CHR ''Z'')"

text \<open>\<open>\b[A-Z\<acute>A-\<acute>U]{3,}\b\<close>: the second range runs from U+00C1 to U+00DA.\<close>

definition rx_palavra :: rx where
  "rx_palavra = seqs [WordB, Rep [AZ, Rng (CHR 0xC1) (CHR 0xDA)] 3 None, WordB]"

text \<open>\<open>\b(\d{1,2})\s*[W]\s*(\d{2})\b\<close>\<close>

definition rx_vis :: rx where
  "rx_vis = seqs [WordB, Grp 1 (Rep [Digit] 1 (Some 2)), Rep [Space] 0 None, Ch [Lit (CHR ''W'')],
                  Rep [Space] 0 None, Grp 2 (Rep [Digit] 2 (Some 2)), WordB]"

text \<open>\<open>\b(\d+[.,]?\d*)\s*(LITROS?|L|ML|M[L])\b\<close>\<close>

definition rx_cap :: rx where
  "rx_cap = seqs [WordB,
                  Grp 1 (seqs [Rep [Digit] 1 None, Rep [Lit (CHR ''.''), Lit (CHR '','')] 0 (Some 1),
                               Rep [Digit] 0 None]),
                  Rep [Space] 0 None,
                  Grp 2 (alts (Seq (lit ''LITRO'') (Rep [Lit (CHR ''S'')] 0 (Some 1)))
                              [lit ''L'', lit ''ML'', Seq (lit ''M'') (Ch [Lit (CHR ''L'')])]),
                  WordB]"

text \<open>\<open>\b\d{3,4}\+?\b\<close>\<close>

definition rx_num :: rx where
  "rx_num = seqs [WordB, Rep [Digit] 3 (Some 4), Rep [Lit (CHR ''+'')] 0 (Some 1), WordB]"

text \<open>\<open>\bX[- ]?CESS\b\<close>, \<open>\bGEN2\b\<close>, \<open>\b2T\b\<close>, \<open>\bC2\s*PLUS\b\<close> and \<open>\bC2\b\<close>\<close>

definition rx_xcess :: rx where
  "rx_xcess = seqs [WordB, lit ''X'', Rep [Lit (CHR ''-''), Lit (CHR '' '')] 0 (Some 1), lit ''CESS'', WordB]"

definition rx_gen2 :: rx where
  "rx_gen2 = seqs [WordB, lit ''GEN2'', WordB]"

definition rx_2t :: rx where
  "rx_2t = seqs [WordB, lit ''2T'', WordB]"

definition rx_c2plus :: rx where
  "rx_c2plus = seqs [WordB, lit ''C2'', Rep [Space] 0 None, lit ''PLUS'', WordB]"

definition rx_c2 :: rx where
  "rx_c2 = seqs [WordB, lit ''C2'', WordB]"

text \<open>\<open>\b[A-Z]{1,3}\d{3,6}[A-Z]?\b\<close>\<close>

definition rx_code :: rx where
  "rx_code = seqs [WordB, Rep [AZ] 1 (Some 3), Rep [Digit] 3 (Some 6), Rep [AZ] 0 (Some 1), WordB]"

text \<open>The stop words: \<open>\b(oleo|\<acute>oleo|lubrificante|spray|de|do|da|para|off|road|sint[\<acute>ee]tico|4t)\b\<close>,
  with o acute U+00F3 and e acute U+00E9.\<close>

definition rx_stop :: rx where
  "rx_stop = seqs [WordB,
                   Grp 1 (alts (lit ''oleo'')
                     [lit (CHR 0xF3 # ''leo''), lit ''lubrificante'', lit ''spray'', lit ''de'',
                      lit ''do'', lit ''da'', lit ''para'', lit ''off'', lit ''road'',
                      seqs [lit ''sint'', Ch [Lit (CHR 0xE9), Lit (CHR ''e'')], lit ''tico''],
                      lit ''4t'']),
                   WordB]"

text \<open>\<open>\s+\<close>\<close>

definition rx_spaces :: rx where
  "rx_spaces = Rep [Space] 1 None"

text \<open>The brand: the first of the sorted brands that occurs in the uppercased title,
  title-cased, and the title without it; failing that the first word of three or more
  capitals, title-cased, with the title as it is.\<close>

fun match_brand :: "string list \<Rightarrow> string \<Rightarrow> (string \<times> string) option" where
  "match_brand [] up = None"
| "match_brand (b # bs) up =
     (if contains b up then Some (py_title b, py_strip (py_replace b '' '' up))
      else match_brand bs up)"

definition extract_brand :: "string \<Rightarrow> string \<times> string" where
  "extract_brand up0 =
     (let (brand, up) = (case match_brand brands_sorted up0 of None \<Rightarrow> ([], up0) | Some bu \<Rightarrow> bu)
      in if brand = []
         then (case re_search False rx_palavra up of
                 None \<Rightarrow> ([], up)
               | Some m \<Rightarrow> (py_strip (py_title (group0 up m)), up))
         else (brand, up))"

definition viscosidade :: "string \<Rightarrow> string option" where
  "viscosidade up =
     (case re_search True rx_vis up of
        None \<Rightarrow> None
      | Some m \<Rightarrow> Some (group up m 1 @ ''w'' @ group up m 2))"

text \<open>The float literals \<open>1.0\<close> and \<open>1e-6\<close>.\<close>

definition um :: pyfloat where
  "um = double_of_decimal 1 0"

definition tolerancia :: pyfloat where
  "tolerancia = double_of_decimal 1 (- 6)"

text \<open>The capacity text from the quantity (commas already dots) and the uppercased unit.
  \<open>float(qty)\<close> and \<open>int(float(qty))\<close> stand inside \<open>try\<close>; \<open>int(val)\<close> of the litre branch
  does not, so its exception would leave the function.\<close>

definition capacidade :: "string \<Rightarrow> string \<Rightarrow> py_error + string" where
  "capacidade qty unit =
     (if unit \<in> {''L'', ''LITRO'', ''LITROS''} then
        (case py_float qty of
           Inl e \<Rightarrow> Inr (qty @ '' litro'')
         | Inr v \<Rightarrow>
             if fless (fabs (fsub v um)) tolerancia then Inr ''1 litro''
             else if is_integer v then
               (case py_int_of_float v of
                  Inl e \<Rightarrow> Inl e
                | Inr n \<Rightarrow> Inr (str_of_int n @ '' litros''))
             else Inr (qty @ '' litros''))
      else
        (case py_float qty of
           Inl e \<Rightarrow> Inr (qty @ '' ml'')
         | Inr v \<Rightarrow>
             (case py_int_of_float v of
                Inl e \<Rightarrow> Inr (qty @ '' ml'')
              | Inr n \<Rightarrow> Inr (str_of_int n @ '' ml''))))"

definition cap_de :: "string \<Rightarrow> py_error + string option" where
  "cap_de up =
     (case re_search True rx_cap up of
        None \<Rightarrow> Inr None
      | Some m \<Rightarrow>
          (case capacidade (replace_char (CHR '','') (CHR ''.'') (group up m 1)) (py_upper (group up m 2)) of
             Inl e \<Rightarrow> Inl e
           | Inr c \<Rightarrow> Inr (Some c)))"

definition found :: "rx \<Rightarrow> string \<Rightarrow> bool" where
  "found r up = (re_search False r up \<noteq> None)"

text \<open>The tokens collected before the product code is looked for.\<close>

definition tokens_de :: "string \<Rightarrow> string list" where
  "tokens_de up =
     map (group0 up) (re_finditer False rx_num up)
     @ (if found rx_xcess up then [''X-Cess''] else [])
     @ (if found rx_gen2 up then [''Gen2''] else [])
     @ (if found rx_2t up then [''2t''] else [])
     @ (if found rx_c2plus up then [''C2 Plus''] else if found rx_c2 up then [''C2''] else [])"

text \<open>The tokens added after it.\<close>

definition extras_de :: "string \<Rightarrow> string list" where
  "extras_de up =
     (if contains ''CHAIN'' up \<and> contains ''LUBE'' up then [''Chain'', ''Lube''] else [])
     @ (if contains ''ROAD'' up then [''Road''] else [])"

definition nao_vazios :: "string list \<Rightarrow> string list" where
  "nao_vazios ps = filter (\<lambda>p. p \<noteq> []) ps"

text \<open>The fallback: the stop words of the original title replaced by a space, the runs
  of whitespace collapsed, the ends stripped.\<close>

definition limpar :: "string \<Rightarrow> string" where
  "limpar s = py_strip (re_sub False rx_spaces '' '' (re_sub True rx_stop '' '' s))"

definition compor :: "string \<Rightarrow> string \<Rightarrow> string \<Rightarrow> string option \<Rightarrow> string option \<Rightarrow> string" where
  "compor s brand up vis cap =
     (let parts = [brand] @ tokens_de up @ extras_de up
                  @ (case vis of None \<Rightarrow> [] | Some v \<Rightarrow> if v = [] then [] else [v])
                  @ (case cap of None \<Rightarrow> [] | Some c \<Rightarrow> if c = [] then [] else [c]);
          consulta = py_strip (py_join '' '' (nao_vazios parts))
      in if consulta = [] \<or> py_lower consulta = py_lower brand then limpar s else consulta)"

definition query_of :: "string \<Rightarrow> string \<times> string \<Rightarrow> py_error + string" where
  "query_of s bu =
     (case bu of (brand, up) \<Rightarrow>
        (case cap_de up of
           Inl e \<Rightarrow> Inl e
         | Inr cap \<Rightarrow>
             (case re_search False rx_code up of
                Some m \<Rightarrow> Inr (py_strip (py_join '' '' (nao_vazios [brand, group0 up m])))
              | None \<Rightarrow> Inr (compor s brand up (viscosidade up) cap))))"

definition title_to_user_query :: "string option \<Rightarrow> py_error + string" where
  "title_to_user_query title =
     (let s = py_strip (case title of None \<Rightarrow> [] | Some t \<Rightarrow> t)
      in if s = [] then Inr [] else query_of s (extract_brand (py_upper s)))"

subsection \<open>The cleaning, as the specification words it\<close>

text \<open>
  A second description of the fallback of \<open>title_to_user_query\<close>, without regular
  expressions: the words of the title (the runs of word characters) that are stop words,
  the case ignored, are replaced by a space; every run of whitespace becomes one space; the
  ends are stripped.
\<close>

definition STOP_WORDS :: "string list" where
  "STOP_WORDS =
     [''oleo'', CHR 0xF3 # ''leo'', ''lubrificante'', ''spray'', ''de'', ''do'', ''da'', ''para'',
      ''off'', ''road'', ''sint'' @ CHR 0xE9 # ''tico'', ''sintetico'', ''4t'']"

definition palavra_vazia :: "string \<Rightarrow> bool" where
  "palavra_vazia w = (py_lower w \<in> set STOP_WORDS)"

function trocar :: "string \<Rightarrow> string" where
  "trocar s =
     (if s = [] then []
      else if is_word (hd s)
      then (if palavra_vazia (takeWhile is_word s) then '' '' else takeWhile is_word s)
             @ trocar (dropWhile is_word s)
      else hd s # trocar (tl s))"
  by pat_completeness auto
termination
proof (relation "measure length")
  fix s :: string
  assume "s \<noteq> []" "is_word (hd s)"
  then obtain c cs where "s = c # cs" "is_word c" by (cases s) auto
  then show "(dropWhile is_word s, s) \<in> measure length"
    by (simp add: length_dropWhile_le less_Suc_eq_le)
qed auto

declare trocar.simps [simp del]

function juntar_espacos :: "string \<Rightarrow> string" where
  "juntar_espacos s =
     (if s = [] then []
      else if py_isspace (hd s) then CHR '' '' # juntar_espacos (dropWhile py_isspace s)
      else hd s # juntar_espacos (tl s))"
  by pat_completeness auto
termination
proof (relation "measure length")
  fix s :: string
  assume "s \<noteq> []" "py_isspace (hd s)"
  then obtain c cs where "s = c # cs" "py_isspace c" by (cases s) auto
  then show "(dropWhile py_isspace s, s) \<in> measure length"
    by (simp add: length_dropWhile_le less_Suc_eq_le)
qed auto

declare juntar_espacos.simps [simp del]

definition limpeza :: "string \<Rightarrow> string" where
  "limpeza s = py_strip (juntar_espacos (trocar s))"

subsection \<open>Result cards, detail pages and report rows\<close>

text \<open>
  The dictionary \<open>extrair_dados_card\<close> returns, with its ten keys. A value that may be
  \<open>None\<close> is an option.
\<close>

record card =
  Titulo :: string
  Link :: "string option"
  Patrocinado :: bool
  Nota_media_lista :: "pyfloat option"
  N_avaliacoes_lista :: "int option"
  Preco_lista :: "string option"
  Preco_lista_num :: "pyfloat option"
  Preco_promo_lista :: "string option"
  Desc_lista :: "string option"
  Tipo_lista :: string

text \<open>What the four extraction functions read from a detail page: \<open>parse_preco_pdp\<close>,
  \<open>extrair_vendedor_pdp\<close>, \<open>extrair_vendidos_pdp\<close> and \<open>extrair_avaliacoes_pdp\<close>.\<close>

record pdp =
  preco_pdp_txt :: "string option"
  preco_pdp_num :: "pyfloat option"
  vendedor :: string
  vendidos :: string
  nota_pdp :: "pyfloat option"
  total_pdp :: "int option"

text \<open>The dictionary appended to \<open>todos\<close>: one row of the report.\<close>

record registro =
  Termo_original :: string
  Consulta :: string
  Patrocinado_txt :: string
  Titulo_reg :: string
  Preco :: "string option"
  Preco_num :: "pyfloat option"
  Preco_promo :: "string option"
  Desc_pct :: "string option"
  Tipo_anuncio :: string
  Vendedor :: string
  Vendidos_pdp :: string
  Nota_media :: "pyfloat option"
  N_avaliacoes :: "int option"
  Link_reg :: "string option"

definition Sim :: string where
  "Sim = ''Sim''"

text \<open>\<open>N\<close>, a with tilde, \<open>o\<close>.\<close>

definition Nao :: string where
  "Nao = [CHR ''N'', CHR 0xE3, CHR ''o'']"

subsection \<open>Merging a card with its detail page (\<open>ScraperThread.run\<close>, lines 700 to 720)\<close>

text \<open>\<open>a or b\<close> on optional strings: \<open>a\<close> when it is a non-empty string, else \<open>b\<close>.\<close>

definition py_or :: "string option \<Rightarrow> string option \<Rightarrow> string option" where
  "py_or a b = (case a of None \<Rightarrow> b | Some t \<Rightarrow> if t = [] then b else Some t)"

text \<open>\<open>a if a is not None else b\<close>.\<close>

definition if_not_none :: "'a option \<Rightarrow> 'a option \<Rightarrow> 'a option" where
  "if_not_none a b = (case a of None \<Rightarrow> b | Some v \<Rightarrow> Some v)"

definition montar_registro :: "string \<Rightarrow> string \<Rightarrow> card \<Rightarrow> pdp \<Rightarrow> registro" where
  "montar_registro termo consulta base d =
     \<lparr> Termo_original = termo,
       Consulta = consulta,
       Patrocinado_txt = (if Patrocinado base then Sim else Nao),
       Titulo_reg = Titulo base,
       Preco = py_or (Preco_lista base) (preco_pdp_txt d),
       Preco_num = if_not_none (Preco_lista_num base) (preco_pdp_num d),
       Preco_promo = Preco_promo_lista base,
       Desc_pct = Desc_lista base,
       Tipo_anuncio = Tipo_lista base,
       Vendedor = vendedor d,
       Vendidos_pdp = vendidos d,
       Nota_media = if_not_none (Nota_media_lista base) (nota_pdp d),
       N_avaliacoes = if_not_none (N_avaliacoes_lista base) (total_pdp d),
       Link_reg = Link base \<rparr>"

text \<open>A field is populated when it is neither \<open>None\<close> nor an empty string.\<close>

definition pop_txt :: "string option \<Rightarrow> bool" where
  "pop_txt a = (case a of None \<Rightarrow> False | Some t \<Rightarrow> t \<noteq> [])"

definition pop_val :: "'a option \<Rightarrow> bool" where
  "pop_val a = (a \<noteq> None)"

definition count_true :: "bool list \<Rightarrow> nat" where
  "count_true bs = length (filter id bs)"

definition populated_card :: "card \<Rightarrow> nat" where
  "populated_card c = count_true
     [Titulo c \<noteq> [], pop_txt (Link c), True, pop_val (Nota_media_lista c),
      pop_val (N_avaliacoes_lista c), pop_txt (Preco_lista c), pop_val (Preco_lista_num c),
      pop_txt (Preco_promo_lista c), pop_txt (Desc_lista c), Tipo_lista c \<noteq> []]"

text \<open>The same ten fields, as the row carries them.\<close>

definition populated_registro :: "registro \<Rightarrow> nat" where
  "populated_registro r = count_true
     [Titulo_reg r \<noteq> [], pop_txt (Link_reg r), Patrocinado_txt r \<noteq> [], pop_val (Nota_media r),
      pop_val (N_avaliacoes r), pop_txt (Preco r), pop_val (Preco_num r),
      pop_txt (Preco_promo r), pop_txt (Desc_pct r), Tipo_anuncio r \<noteq> []]"

subsection \<open>Selecting the first cards of a term (\<open>ScraperThread.run\<close>, lines 643 to 669)\<close>

text \<open>
  The loop visits the cards in page order. For each card the input gives what
  \<open>stop_evt.is_set()\<close> answers at the top of the iteration and what \<open>extrair_dados_card\<close>
  yields: a card, or an exception, which the \<open>except\<close> inside the loop logs before the
  loop goes on. \<open>vistos\<close> is the set \<open>vistos_links\<close>, \<open>sel\<close> the list \<open>selecionados\<close>.
\<close>

type_synonym card_step = "bool \<times> (py_error + card)"

fun selecionar_loop :: "int \<Rightarrow> card_step list \<Rightarrow> card list \<Rightarrow> string set \<Rightarrow> card list" where
  "selecionar_loop first_n [] sel vistos = sel"
| "selecionar_loop first_n ((stop, ev) # rest) sel vistos =
     (if stop then sel
      else (case ev of
              Inl e \<Rightarrow> selecionar_loop first_n rest sel vistos
            | Inr base \<Rightarrow>
                (case Link base of
                   None \<Rightarrow> selecionar_loop first_n rest sel vistos
                 | Some link \<Rightarrow>
                     if link = [] \<or> link \<in> vistos then selecionar_loop first_n rest sel vistos
                     else if first_n \<le> int (length (sel @ [base])) then sel @ [base]
                     else selecionar_loop first_n rest (sel @ [base]) (insert link vistos))))"

definition selecionar :: "int \<Rightarrow> card_step list \<Rightarrow> card list" where
  "selecionar first_n cards = selecionar_loop first_n cards [] {}"

text \<open>The cards the loop gets to see: those before the first iteration that finds the
  stop flag set, without the ones whose extraction raised.\<close>

fun cards_seen :: "card_step list \<Rightarrow> card list" where
  "cards_seen [] = []"
| "cards_seen ((stop, ev) # rest) =
     (if stop then []
      else (case ev of Inl e \<Rightarrow> cards_seen rest | Inr base \<Rightarrow> base # cards_seen rest))"

text \<open>The selection as the specification words it: of the cards that have a link, the
  first one for each link, in page order.\<close>

fun first_by_link :: "string set \<Rightarrow> card list \<Rightarrow> card list" where
  "first_by_link seen [] = []"
| "first_by_link seen (c # cs) =
     (case Link c of
        None \<Rightarrow> first_by_link seen cs
      | Some link \<Rightarrow>
          if link = [] \<or> link \<in> seen then first_by_link seen cs
          else c # first_by_link (insert link seen) cs)"

text \<open>A card list on which the selection has nothing to drop.\<close>

definition link_distinct :: "card list \<Rightarrow> bool" where
  "link_distinct cs = (distinct (map Link cs) \<and> list_all (\<lambda>c. pop_txt (Link c)) cs)"

subsection \<open>\<open>comparar_precos_por_consulta\<close>\<close>

text \<open>
  The function adds three keys to every row. \<open>Nosso_menor_preco\<close> is \<open>None\<close> where the
  Python stores the empty string. \<open>min\<close> keeps its first argument unless a later one is
  smaller by \<open><\<close>.
\<close>

record comparado =
  linha :: registro
  E_nossa_loja :: string
  Concorrente_abaixo :: string
  Nosso_menor_preco :: "pyfloat option"

definition nossa :: "string set \<Rightarrow> registro \<Rightarrow> bool" where
  "nossa nossas_lojas r = (py_upper (Vendedor r) \<in> py_upper ` nossas_lojas)"

definition py_min :: "pyfloat \<Rightarrow> pyfloat list \<Rightarrow> pyfloat" where
  "py_min p ps = fold (\<lambda>x best. if fless x best then x else best) ps p"

definition nosso_preco :: "registro list \<Rightarrow> string set \<Rightarrow> pyfloat option" where
  "nosso_preco registros nossas_lojas =
     (case List.map_filter Preco_num (filter (nossa nossas_lojas) registros) of
        [] \<Rightarrow> None
      | p # ps \<Rightarrow> Some (py_min p ps))"

definition marcar :: "string set \<Rightarrow> pyfloat option \<Rightarrow> registro \<Rightarrow> comparado" where
  "marcar nossas_lojas np r =
     (case (np, Preco_num r) of
        (Some m, Some p) \<Rightarrow>
          if nossa nossas_lojas r
          then \<lparr> linha = r, E_nossa_loja = Sim, Concorrente_abaixo = [], Nosso_menor_preco = np \<rparr>
          else \<lparr> linha = r, E_nossa_loja = Nao,
                 Concorrente_abaixo = (if fless p m then Sim else Nao), Nosso_menor_preco = np \<rparr>
      | _ \<Rightarrow> \<lparr> linha = r, E_nossa_loja = (if nossa nossas_lojas r then Sim else Nao),
               Concorrente_abaixo = [], Nosso_menor_preco = np \<rparr>)"

definition comparar_precos_por_consulta :: "registro list \<Rightarrow> string set \<Rightarrow> comparado list" where
  "comparar_precos_por_consulta registros nossas_lojas =
     map (marcar nossas_lojas (nosso_preco registros nossas_lojas)) registros"

text \<open>A float is a number when it is not NaN; the numbers are ordered by \<open>fkey\<close>.\<close>

fun fkey :: "pyfloat \<Rightarrow> int \<times> rat" where
  "fkey (Fin m e) = (0, of_int m * 2 powi e)"
| "fkey PInf = (1, 0)"
| "fkey NInf = (- 1, 0)"
| "fkey NaN = (2, 0)"

subsection \<open>The order of the final report (\<open>ScraperThread.run\<close>, lines 745 to 751)\<close>

text \<open>
  \<open>to_numeric(errors="coerce")\<close> turns \<open>None\<close> into NaN. \<open>DataFrame.sort_values\<close> on several
  columns is a stable sort on the tuple of the columns, with the missing values (NaN) of a
  column after its other values whichever the direction of that column. The sort key
  below puts a missing value after every number and negates the numbers of a descending
  column.
\<close>

definition desc_float :: "pyfloat option \<Rightarrow> nat \<times> int \<times> rat" where
  "desc_float a =
     (case a of
        None \<Rightarrow> (1, 0, 0)
      | Some x \<Rightarrow> if x = NaN then (1, 0, 0) else (0, - fst (fkey x), - snd (fkey x)))"

definition desc_int :: "int option \<Rightarrow> nat \<times> int" where
  "desc_int a = (case a of None \<Rightarrow> (1, 0) | Some n \<Rightarrow> (0, - n))"

definition chave :: "registro \<Rightarrow> string \<times> string \<times> (nat \<times> int \<times> rat) \<times> (nat \<times> int)" where
  "chave r = (Termo_original r, Patrocinado_txt r, desc_float (Nota_media r), desc_int (N_avaliacoes r))"

definition ordenar :: "registro list \<Rightarrow> registro list" where
  "ordenar todos = sort_key chave todos"

text \<open>The order as the specification words it, column by column.\<close>

definition sem_nota :: "registro \<Rightarrow> bool" where
  "sem_nota r = (Nota_media r = None \<or> Nota_media r = Some NaN)"

definition nota_antes :: "registro \<Rightarrow> registro \<Rightarrow> bool" where
  "nota_antes a b =
     (\<not> sem_nota a \<and> (sem_nota b \<or> fkey (the (Nota_media b)) < fkey (the (Nota_media a))))"

definition nota_igual :: "registro \<Rightarrow> registro \<Rightarrow> bool" where
  "nota_igual a b =
     (if sem_nota a then sem_nota b
      else \<not> sem_nota b \<and> fkey (the (Nota_media a)) = fkey (the (Nota_media b)))"

definition aval_antes :: "registro \<Rightarrow> registro \<Rightarrow> bool" where
  "aval_antes a b =
     (case (N_avaliacoes a, N_avaliacoes b) of
        (Some m, Some n) \<Rightarrow> n < m
      | (Some m, None) \<Rightarrow> True
      | (None, _) \<Rightarrow> False)"

definition antes_ou_igual :: "registro \<Rightarrow> registro \<Rightarrow> bool" where
  "antes_ou_igual a b =
     (Termo_original a < Termo_original b
      \<or> (Termo_original a = Termo_original b
          \<and> (Patrocinado_txt a < Patrocinado_txt b
              \<or> (Patrocinado_txt a = Patrocinado_txt b
                  \<and> (nota_antes a b
                      \<or> (nota_igual a b
                          \<and> (aval_antes a b \<or> N_avaliacoes a = N_avaliacoes b)))))))"

text \<open>Two rows agree on the four sort columns.\<close>

definition mesma_chave :: "registro \<Rightarrow> registro \<Rightarrow> bool" where
  "mesma_chave a b =
     (Termo_original a = Termo_original b \<and> Patrocinado_txt a = Patrocinado_txt b
      \<and> nota_igual a b \<and> N_avaliacoes a = N_avaliacoes b)"

subsection \<open>Sample data\<close>

text \<open>A card and a report row with the given fields and nothing else of interest; the
  concrete instances of the theorems are stated on them.\<close>

definition exemplo_card :: "string \<Rightarrow> string option \<Rightarrow> card" where
  "exemplo_card t l =
     \<lparr> Titulo = t, Link = l, Patrocinado = False, Nota_media_lista = None,
       N_avaliacoes_lista = None, Preco_lista = None, Preco_lista_num = None,
       Preco_promo_lista = None, Desc_lista = None, Tipo_lista = ''Premium'' \<rparr>"

definition exemplo_registro :: "string \<Rightarrow> pyfloat option \<Rightarrow> registro" where
  "exemplo_registro v p =
     \<lparr> Termo_original = ''Motul 5100'', Consulta = ''Motul 5100'', Patrocinado_txt = Nao,
       Titulo_reg = ''Motul 5100 10w40'', Preco = None, Preco_num = p, Preco_promo = None,
       Desc_pct = None, Tipo_anuncio = ''Premium'', Vendedor = v, Vendidos_pdp = ''0'',
       Nota_media = None, N_avaliacoes = None, Link_reg = Some ''https://x/1'' \<rparr>"

section \<open>Results\<close>

subsection \<open>Results about \<open>parse_preco_texto_to_float\<close>\<close>

text \<open>
  Claim C10. \<open>parse_preco_texto_to_float\<close> never raises: on every input it returns a value.
  It returns \<open>None\<close> for \<open>None\<close> and for the empty string; for any other string it removes
  every dot, turns every comma into a dot, and returns \<open>None\<close> when \<open>float\<close> rejects the
  outcome and the float otherwise. So \<open>1.234,56\<close> yields the float 1234.56, and \<open>1.5\<close>
  yields 15.0 (the dot is dropped as a thousands separator), which is not the float 1.5.
\<close>

theorem parse_preco_texto_to_float_total:
  "(\<exists>r. parse_preco_texto_to_float x = Inr r)
   \<and> parse_preco_texto_to_float None = Inr None
   \<and> parse_preco_texto_to_float (Some []) = Inr None
   \<and> parse_preco_texto_to_float (Some t) =
       Inr (if t = [] then None
            else (case py_float (replace_char (CHR '','') (CHR ''.'') (remove_char (CHR ''.'') t)) of
                    Inl e \<Rightarrow> None
                  | Inr v \<Rightarrow> Some v))
   \<and> parse_preco_texto_to_float (Some ''1.234,56'') = Inr (Some (double_of_decimal 123456 (- 2)))
   \<and> parse_preco_texto_to_float (Some ''1.5'') = Inr (Some (double_of_decimal 15 0))
   \<and> double_of_decimal 15 0 \<noteq> double_of_decimal 15 (- 1)"
proof -
  have total: "\<exists>r. parse_preco_texto_to_float x = Inr r"
    by (simp add: parse_preco_texto_to_float_def split: option.split sum.split)
  have shape: "parse_preco_texto_to_float (Some t) =
       Inr (if t = [] then None
            else (case py_float (replace_char (CHR '','') (CHR ''.'') (remove_char (CHR ''.'') t)) of
                    Inl e \<Rightarrow> None
                  | Inr v \<Rightarrow> Some v))"
    by (simp add: parse_preco_texto_to_float_def split: sum.split)
  have br: "parse_preco_texto_to_float (Some ''1.234,56'') = Inr (Some (double_of_decimal 123456 (- 2)))"
    by code_simp
  have dot: "parse_preco_texto_to_float (Some ''1.5'') = Inr (Some (double_of_decimal 15 0))"
    by code_simp
  have ne: "double_of_decimal 15 0 \<noteq> double_of_decimal 15 (- 1)"
    by code_simp
  have none: "parse_preco_texto_to_float None = Inr None"
    by (simp add: parse_preco_texto_to_float_def)
  have empty: "parse_preco_texto_to_float (Some []) = Inr None"
    by (simp add: parse_preco_texto_to_float_def)
  show ?thesis
    by (intro conjI) (rule total none empty shape br dot ne)+
qed

subsection \<open>Merging\<close>

lemma count_true_mono:
  "list_all2 (\<lambda>a b. a \<longrightarrow> b) bs cs \<Longrightarrow> count_true bs \<le> count_true cs"
  unfolding count_true_def
  by (induction bs cs rule: list_all2_induct) auto

lemma pop_txt_py_or: "pop_txt a \<Longrightarrow> py_or a b = a"
  by (auto simp: pop_txt_def py_or_def split: option.splits)

lemma not_pop_txt_py_or: "\<not> pop_txt a \<Longrightarrow> py_or a b = b"
  by (auto simp: pop_txt_def py_or_def split: option.splits)

lemma if_not_none_eq: "if_not_none a b = (if pop_val a then a else b)"
  by (auto simp: pop_val_def if_not_none_def split: option.splits)

text \<open>
  Claim C6. In the merged row the price text, the numeric price, the rating and the review
  count are the card's value whenever the card has one (a non-empty text, a value other than
  \<open>None\<close>), and the detail page's value only when the card has none. So the row has at least
  as many populated fields as the card it comes from.
\<close>

theorem montar_registro_precedence:
  "Preco (montar_registro termo consulta base d) =
     (if pop_txt (Preco_lista base) then Preco_lista base else preco_pdp_txt d)
   \<and> Preco_num (montar_registro termo consulta base d) =
     (if pop_val (Preco_lista_num base) then Preco_lista_num base else preco_pdp_num d)
   \<and> Nota_media (montar_registro termo consulta base d) =
     (if pop_val (Nota_media_lista base) then Nota_media_lista base else nota_pdp d)
   \<and> N_avaliacoes (montar_registro termo consulta base d) =
     (if pop_val (N_avaliacoes_lista base) then N_avaliacoes_lista base else total_pdp d)
   \<and> populated_card base \<le> populated_registro (montar_registro termo consulta base d)"
proof -
  let ?r = "montar_registro termo consulta base d"
  have p: "Preco ?r = (if pop_txt (Preco_lista base) then Preco_lista base else preco_pdp_txt d)"
    by (simp add: montar_registro_def pop_txt_py_or not_pop_txt_py_or)
  have n: "Preco_num ?r = (if pop_val (Preco_lista_num base) then Preco_lista_num base else preco_pdp_num d)"
    by (simp add: montar_registro_def if_not_none_eq)
  have r: "Nota_media ?r = (if pop_val (Nota_media_lista base) then Nota_media_lista base else nota_pdp d)"
    by (simp add: montar_registro_def if_not_none_eq)
  have a: "N_avaliacoes ?r = (if pop_val (N_avaliacoes_lista base) then N_avaliacoes_lista base else total_pdp d)"
    by (simp add: montar_registro_def if_not_none_eq)
  have c: "populated_card base \<le> populated_registro ?r"
    unfolding populated_card_def populated_registro_def
    by (rule count_true_mono) (simp add: p n r a, simp add: montar_registro_def Sim_def Nao_def)
  show ?thesis using p n r a c by blast
qed

subsection \<open>Selection\<close>

lemma selecionar_loop_spec:
  "int (length sel) < first_n \<Longrightarrow>
   selecionar_loop first_n evs sel vistos =
     take (nat first_n) (sel @ first_by_link vistos (cards_seen evs))"
proof (induction evs arbitrary: sel vistos)
  case Nil
  then show ?case by simp
next
  case (Cons ev evs)
  obtain stop x where ev: "ev = (stop, x)" by (cases ev)
  show ?case
  proof (cases stop)
    case True
    with Cons.prems ev show ?thesis by simp
  next
    case False
    show ?thesis
    proof (cases x)
      case (Inl e)
      with False ev Cons show ?thesis by simp
    next
      case (Inr base)
      show ?thesis
      proof (cases "Link base")
        case None
        with False ev Inr Cons show ?thesis by simp
      next
        case (Some link)
        show ?thesis
        proof (cases "link = [] \<or> link \<in> vistos")
          case True
          with False ev Inr Some Cons show ?thesis by auto
        next
          case nv: False
          show ?thesis
          proof (cases "first_n \<le> int (length (sel @ [base]))")
            case True
            with Cons.prems have "nat first_n = Suc (length sel)" by simp
            with True False ev Inr Some nv show ?thesis by simp
          next
            case f: False
            then have "int (length (sel @ [base])) < first_n" by simp
            from Cons.IH[OF this] f False ev Inr Some nv show ?thesis by simp
          qed
        qed
      qed
    qed
  qed
qed

lemma first_by_link_links:
  "c \<in> set (first_by_link seen cs) \<Longrightarrow> \<exists>l. Link c = Some l \<and> l \<noteq> [] \<and> l \<notin> seen \<and> c \<in> set cs"
  by (induction cs arbitrary: seen) (auto split: option.splits if_splits)

lemma first_by_link_distinct: "distinct (map Link (first_by_link seen cs))"
proof (induction cs arbitrary: seen)
  case Nil
  then show ?case by simp
next
  case (Cons c cs)
  have "Some l \<notin> Link ` set (first_by_link (insert l seen) cs)" for l
    using first_by_link_links[of _ "insert l seen" cs] by force
  then show ?case
    using Cons.IH by (auto split: option.splits)
qed

lemma first_by_link_pop: "list_all (\<lambda>c. pop_txt (Link c)) (first_by_link seen cs)"
  unfolding list_all_iff
proof
  fix c assume "c \<in> set (first_by_link seen cs)"
  from first_by_link_links[OF this] show "pop_txt (Link c)"
    by (auto simp: pop_txt_def)
qed

lemma first_by_link_subseq: "subseq (first_by_link seen cs) cs"
  by (induction cs arbitrary: seen) (auto split: option.splits)

lemma first_by_link_first:
  "c \<in> set (first_by_link seen cs) \<Longrightarrow> find (\<lambda>x. Link x = Link c) cs = Some c"
proof (induction cs arbitrary: seen)
  case Nil
  then show ?case by simp
next
  case (Cons h cs)
  then show ?case
    using first_by_link_links[of c seen cs] first_by_link_links[of c "insert _ seen" cs]
    by (fastforce split: option.splits if_splits)
qed

lemma first_by_link_id:
  "link_distinct cs \<Longrightarrow> \<forall>c\<in>set cs. \<forall>l. Link c = Some l \<longrightarrow> l \<notin> seen \<Longrightarrow> first_by_link seen cs = cs"
proof (induction cs arbitrary: seen)
  case Nil
  then show ?case by simp
next
  case (Cons h cs)
  from Cons.prems(1) have ld: "link_distinct cs" and hpop: "pop_txt (Link h)"
    and hn: "Link h \<notin> Link ` set cs"
    by (auto simp: link_distinct_def)
  from hpop obtain l where l: "Link h = Some l" "l \<noteq> []"
    by (auto simp: pop_txt_def split: option.splits)
  have "\<forall>c\<in>set cs. \<forall>l'. Link c = Some l' \<longrightarrow> l' \<notin> insert l seen"
    using Cons.prems(2) hn l by force
  from Cons.IH[OF ld this] l Cons.prems(2) show ?case by simp
qed

lemma cards_seen_plain: "cards_seen (map (\<lambda>c. (False, Inr c)) cs) = cs"
  by (induction cs) auto

lemma link_distinct_take: "link_distinct cs \<Longrightarrow> link_distinct (take n cs)"
  unfolding link_distinct_def
  by (metis distinct_take list_all_iff in_set_takeD take_map)

lemma selecionar_props:
  assumes "1 \<le> first_n"
  shows "selecionar first_n cards = take (nat first_n) (first_by_link {} (cards_seen cards))"
    and "distinct (map Link (selecionar first_n cards))"
    and "list_all (\<lambda>c. pop_txt (Link c)) (selecionar first_n cards)"
    and "int (length (selecionar first_n cards)) \<le> first_n"
    and "subseq (selecionar first_n cards) (cards_seen cards)"
    and "\<forall>c\<in>set (selecionar first_n cards). find (\<lambda>x. Link x = Link c) (cards_seen cards) = Some c"
    and "link_distinct cs \<longrightarrow> selecionar first_n (map (\<lambda>c. (False, Inr c)) cs) = take (nat first_n) cs"
    and "selecionar first_n (map (\<lambda>c. (False, Inr c)) (selecionar first_n cards)) = selecionar first_n cards"
proof -
  have spec: "selecionar first_n evs = take (nat first_n) (first_by_link {} (cards_seen evs))" for evs
    using assms selecionar_loop_spec[of "[]" first_n evs "{}"] by (simp add: selecionar_def)
  show "selecionar first_n cards = take (nat first_n) (first_by_link {} (cards_seen cards))"
    by (rule spec)
  have ld: "link_distinct (first_by_link {} (cards_seen cards))"
    by (simp add: link_distinct_def first_by_link_distinct first_by_link_pop)
  then have ldt: "link_distinct (selecionar first_n cards)"
    by (simp add: spec link_distinct_take)
  then show "distinct (map Link (selecionar first_n cards))"
    and "list_all (\<lambda>c. pop_txt (Link c)) (selecionar first_n cards)"
    by (simp_all add: link_distinct_def)
  show "int (length (selecionar first_n cards)) \<le> first_n"
    using assms by (simp add: spec)
  have "subseq (take (nat first_n) (first_by_link {} (cards_seen cards))) (first_by_link {} (cards_seen cards))"
    by (metis append_take_drop_id list_emb_prefix subseq_order.order_refl)
  then show "subseq (selecionar first_n cards) (cards_seen cards)"
    using first_by_link_subseq[of "{}" "cards_seen cards"] spec subseq_order.order_trans by metis
  show "\<forall>c\<in>set (selecionar first_n cards). find (\<lambda>x. Link x = Link c) (cards_seen cards) = Some c"
    using first_by_link_first[of _ "{}" "cards_seen cards"] by (auto simp: spec dest: in_set_takeD)
  have idem: "link_distinct xs \<Longrightarrow> selecionar first_n (map (\<lambda>c. (False, Inr c)) xs) = take (nat first_n) xs" for xs
    by (simp add: spec cards_seen_plain first_by_link_id)
  show "link_distinct cs \<longrightarrow> selecionar first_n (map (\<lambda>c. (False, Inr c)) cs) = take (nat first_n) cs"
    using idem by blast
  have "length (selecionar first_n cards) \<le> nat first_n"
    by (simp add: spec)
  then show "selecionar first_n (map (\<lambda>c. (False, Inr c)) (selecionar first_n cards)) = selecionar first_n cards"
    using idem[OF ldt] by simp
qed

text \<open>
  Claim C4. With a cap of at least one (\<open>JobConfig\<close> is built with \<open>max(1, ...)\<close>), the
  selected list is the first \<open>first_n\<close> cards of the first-seen-link selection: no link
  occurs twice, every selected card has a non-empty link, there are at most \<open>first_n\<close> of
  them, they keep the page order, and each is the first card of the page with its link.
  Selecting from a list whose links are already distinct and present returns that list up
  to the cap, so selecting from a selection changes nothing.
\<close>

theorem selecionar_first_link_wins:
  assumes "1 \<le> first_n"
  shows "selecionar first_n cards = take (nat first_n) (first_by_link {} (cards_seen cards))
    \<and> distinct (map Link (selecionar first_n cards))
    \<and> list_all (\<lambda>c. pop_txt (Link c)) (selecionar first_n cards)
    \<and> int (length (selecionar first_n cards)) \<le> first_n
    \<and> subseq (selecionar first_n cards) (cards_seen cards)
    \<and> (\<forall>c\<in>set (selecionar first_n cards).
          find (\<lambda>x. Link x = Link c) (cards_seen cards) = Some c)
    \<and> (link_distinct cs \<longrightarrow>
          selecionar first_n (map (\<lambda>c. (False, Inr c)) cs) = take (nat first_n) cs)
    \<and> selecionar first_n (map (\<lambda>c. (False, Inr c)) (selecionar first_n cards))
        = selecionar first_n cards"
  using selecionar_props[OF assms] by blast

theorem selecionar_first_link_wins_witness:
  "selecionar 2
     [(False, Inr (exemplo_card ''a'' (Some ''l1''))), (False, Inr (exemplo_card ''b'' (Some ''l1''))),
      (False, Inr (exemplo_card ''c'' None)), (False, Inl PlaywrightError),
      (False, Inr (exemplo_card ''d'' (Some ''l2''))), (False, Inr (exemplo_card ''e'' (Some ''l3'')))]
   = [exemplo_card ''a'' (Some ''l1''), exemplo_card ''d'' (Some ''l2'')]
   \<and> int (length (selecionar 2
     [(False, Inr (exemplo_card ''a'' (Some ''l1''))), (False, Inr (exemplo_card ''b'' (Some ''l1''))),
      (False, Inr (exemplo_card ''c'' None)), (False, Inl PlaywrightError),
      (False, Inr (exemplo_card ''d'' (Some ''l2''))), (False, Inr (exemplo_card ''e'' (Some ''l3'')))]))
     \<le> 2"
proof -
  have h: "(1::int) \<le> 2" by simp
  have e: "selecionar 2
     [(False, Inr (exemplo_card ''a'' (Some ''l1''))), (False, Inr (exemplo_card ''b'' (Some ''l1''))),
      (False, Inr (exemplo_card ''c'' None)), (False, Inl PlaywrightError),
      (False, Inr (exemplo_card ''d'' (Some ''l2''))), (False, Inr (exemplo_card ''e'' (Some ''l3'')))]
   = [exemplo_card ''a'' (Some ''l1''), exemplo_card ''d'' (Some ''l2'')]"
    by (simp add: selecionar_def exemplo_card_def)
  from selecionar_first_link_wins[OF h] e show ?thesis by blast
qed


subsection \<open>Price comparison\<close>

lemma scaled_rat:
  assumes "e \<le> e1"
  shows "(of_int (m * 2 ^ nat (e1 - e)) :: rat) = of_int m * 2 powi e1 / 2 powi e"
proof -
  have "(of_int (m * 2 ^ nat (e1 - e)) :: rat) = of_int m * 2 ^ nat (e1 - e)"
    by simp
  also have "\<dots> = of_int m * 2 powi (e1 - e)"
    using assms by (simp add: power_int_def)
  also have "\<dots> = of_int m * (2 powi e1 / 2 powi e)"
    by (simp add: power_int_diff)
  finally show ?thesis by simp
qed

lemma fless_Fin_rat:
  "fless (Fin m1 e1) (Fin m2 e2) = ((of_int m1 * 2 powi e1 :: rat) < of_int m2 * 2 powi e2)"
proof -
  define e where "e = min e1 e2"
  have le: "e \<le> e1" "e \<le> e2" by (simp_all add: e_def)
  have pos: "(0::rat) < 2 powi e" "\<not> (2::rat) powi e < 0"
    by (simp_all add: not_less less_imp_le)
  have "fless (Fin m1 e1) (Fin m2 e2) = (m1 * 2 ^ nat (e1 - e) < m2 * 2 ^ nat (e2 - e))"
    by (simp add: e_def Let_def)
  also have "\<dots> = ((of_int (m1 * 2 ^ nat (e1 - e)) :: rat) < of_int (m2 * 2 ^ nat (e2 - e)))"
    by (simp only: of_int_less_iff)
  also have "\<dots> = ((of_int m1 * 2 powi e1 / 2 powi e :: rat) < of_int m2 * 2 powi e2 / 2 powi e)"
    by (simp only: scaled_rat[OF le(1)] scaled_rat[OF le(2)])
  also have "\<dots> = ((of_int m1 * 2 powi e1 :: rat) < of_int m2 * 2 powi e2)"
    using pos by (auto simp: divide_less_cancel)
  finally show ?thesis .
qed

lemma fless_fkey: "x \<noteq> NaN \<Longrightarrow> y \<noteq> NaN \<Longrightarrow> fless x y = (fkey x < fkey y)"
  by (cases x; cases y) (simp_all add: fless_Fin_rat del: fless.simps(1))

lemma fold_min_inv:
  "NaN \<notin> set (b # ps) \<Longrightarrow>
   fold (\<lambda>x best. if fless x best then x else best) ps b \<in> set (b # ps)
   \<and> fold (\<lambda>x best. if fless x best then x else best) ps b \<noteq> NaN
   \<and> fkey (fold (\<lambda>x best. if fless x best then x else best) ps b) \<le> fkey b
   \<and> (\<forall>q\<in>set ps. fkey (fold (\<lambda>x best. if fless x best then x else best) ps b) \<le> fkey q)"
proof (induction ps arbitrary: b)
  case Nil
  then show ?case by auto
next
  case (Cons p ps)
  let ?f = "\<lambda>x best. if fless x best then x else best"
  let ?b' = "if fless p b then p else b"
  from Cons.prems have nn: "NaN \<notin> set (?b' # ps)" "p \<noteq> NaN" "b \<noteq> NaN" by auto
  note ih = Cons.IH[OF nn(1)]
  have step: "fkey ?b' \<le> fkey b" "fkey ?b' \<le> fkey p"
    using fless_fkey[OF nn(2) nn(3)] by auto
  have "fold ?f (p # ps) b = fold ?f ps ?b'" by simp
  with ih step show ?case by (auto split: if_splits)
qed

lemma py_min_least:
  "NaN \<notin> set (p # ps) \<Longrightarrow> py_min p ps \<in> set (p # ps) \<and> (\<forall>q\<in>set (p # ps). \<not> fless q (py_min p ps))"
proof -
  assume a: "NaN \<notin> set (p # ps)"
  from fold_min_inv[OF a] have m: "py_min p ps \<in> set (p # ps)" "py_min p ps \<noteq> NaN"
    and le: "\<forall>q\<in>set (p # ps). fkey (py_min p ps) \<le> fkey q"
    by (auto simp: py_min_def)
  have "\<not> fless q (py_min p ps)" if "q \<in> set (p # ps)" for q
  proof -
    from that a have "q \<noteq> NaN" by auto
    from fless_fkey[OF this m(2)] le that show ?thesis by auto
  qed
  with m show ?thesis by blast
qed

lemma map_filter_set: "set (List.map_filter f xs) = {y. \<exists>x\<in>set xs. f x = Some y}"
  by (force simp: List.map_filter_def)

lemma nosso_preco_None:
  "(nosso_preco registros lojas = None) = (\<not> (\<exists>r\<in>set registros. nossa lojas r \<and> Preco_num r \<noteq> None))"
proof -
  let ?ps = "List.map_filter Preco_num (filter (nossa lojas) registros)"
  have "(nosso_preco registros lojas = None) = (?ps = [])"
    by (simp add: nosso_preco_def split: list.split)
  also have "\<dots> = (set ?ps = {})" by simp
  also have "\<dots> = (\<not> (\<exists>r\<in>set registros. nossa lojas r \<and> Preco_num r \<noteq> None))"
  proof -
    have "(\<exists>y. \<exists>x\<in>set (filter (nossa lojas) registros). Preco_num x = Some y)
        = (\<exists>r\<in>set registros. nossa lojas r \<and> Preco_num r \<noteq> None)"
      by auto
    then show ?thesis unfolding map_filter_set by blast
  qed
  finally show ?thesis .
qed

lemma nosso_preco_Some:
  assumes "\<forall>r\<in>set registros. nossa lojas r \<longrightarrow> Preco_num r \<noteq> Some NaN"
    and "nosso_preco registros lojas = Some m"
  shows "(\<exists>r\<in>set registros. nossa lojas r \<and> Preco_num r = Some m)
    \<and> (\<forall>r\<in>set registros. \<forall>p. nossa lojas r \<and> Preco_num r = Some p \<longrightarrow> \<not> fless p m)"
proof -
  let ?ps = "List.map_filter Preco_num (filter (nossa lojas) registros)"
  from assms(2) obtain p ps where ps: "?ps = p # ps" and m: "m = py_min p ps"
    by (auto simp: nosso_preco_def split: list.splits)
  have set: "set (p # ps) = {y. \<exists>r\<in>set registros. nossa lojas r \<and> Preco_num r = Some y}"
    using map_filter_set[of Preco_num "filter (nossa lojas) registros"] ps by auto
  with assms(1) have "NaN \<notin> set (p # ps)" by blast
  from py_min_least[OF this] m set show ?thesis by blast
qed

text \<open>
  Where the monitored prices are numbers (none is NaN), \<open>comparar_precos_por_consulta\<close>
  does what is expected of it. It keeps the rows and their order. Every row gets the
  membership flag: \<open>Sim\<close> exactly when its seller, in upper case, is the upper case of a
  monitored store. The operator minimum is absent exactly when no monitored row has a price;
  otherwise it is the price of a monitored row that no monitored price is below. A row that
  is not monitored and has a price, when the minimum exists, is tagged \<open>Sim\<close> when its price
  is less than the minimum and \<open>Nao\<close> otherwise; every other row gets the empty marker.
\<close>

lemma comparar_precos_por_consulta_numeros:
  assumes "\<forall>r\<in>set registros. nossa lojas r \<longrightarrow> Preco_num r \<noteq> Some NaN"
  shows "map linha (comparar_precos_por_consulta registros lojas) = registros
    \<and> (\<forall>c\<in>set (comparar_precos_por_consulta registros lojas).
          E_nossa_loja c = (if nossa lojas (linha c) then Sim else Nao)
          \<and> Nosso_menor_preco c = nosso_preco registros lojas
          \<and> Concorrente_abaixo c =
              (case (nosso_preco registros lojas, Preco_num (linha c)) of
                 (Some m, Some p) \<Rightarrow>
                   if nossa lojas (linha c) then [] else if fless p m then Sim else Nao
               | _ \<Rightarrow> []))
    \<and> ((nosso_preco registros lojas = None)
         = (\<not> (\<exists>r\<in>set registros. nossa lojas r \<and> Preco_num r \<noteq> None)))
    \<and> (\<forall>m. nosso_preco registros lojas = Some m \<longrightarrow>
          (\<exists>r\<in>set registros. nossa lojas r \<and> Preco_num r = Some m)
          \<and> (\<forall>r\<in>set registros. \<forall>p. nossa lojas r \<and> Preco_num r = Some p \<longrightarrow> \<not> fless p m))"
proof -
  have rows: "map linha (comparar_precos_por_consulta registros lojas) = registros"
    by (simp add: comparar_precos_por_consulta_def marcar_def comp_def map_idI
        split: option.split prod.split)
  have tags: "\<forall>c\<in>set (comparar_precos_por_consulta registros lojas).
          E_nossa_loja c = (if nossa lojas (linha c) then Sim else Nao)
          \<and> Nosso_menor_preco c = nosso_preco registros lojas
          \<and> Concorrente_abaixo c =
              (case (nosso_preco registros lojas, Preco_num (linha c)) of
                 (Some m, Some p) \<Rightarrow>
                   if nossa lojas (linha c) then [] else if fless p m then Sim else Nao
               | _ \<Rightarrow> [])"
    by (auto simp: comparar_precos_por_consulta_def marcar_def split: option.splits)
  show ?thesis
    using rows tags nosso_preco_None[of registros lojas] nosso_preco_Some[OF assms]
    by blast
qed

text \<open>The example of the specification: monitored prices 10.0 and 12.0, competitors at 9.5
  and at 10.5.\<close>

lemma comparar_precos_por_consulta_exemplo:
  "map linha (comparar_precos_por_consulta
      [exemplo_registro ''MINHA LOJA'' (Some (double_of_decimal 10 0)),
       exemplo_registro ''Minha Loja'' (Some (double_of_decimal 12 0)),
       exemplo_registro ''Outra'' (Some (double_of_decimal 95 (- 1))),
       exemplo_registro ''Mais Uma'' (Some (double_of_decimal 105 (- 1)))]
      {''minha loja''})
    = [exemplo_registro ''MINHA LOJA'' (Some (double_of_decimal 10 0)),
       exemplo_registro ''Minha Loja'' (Some (double_of_decimal 12 0)),
       exemplo_registro ''Outra'' (Some (double_of_decimal 95 (- 1))),
       exemplo_registro ''Mais Uma'' (Some (double_of_decimal 105 (- 1)))]
   \<and> map (\<lambda>c. (E_nossa_loja c, Concorrente_abaixo c, Nosso_menor_preco c))
      (comparar_precos_por_consulta
        [exemplo_registro ''MINHA LOJA'' (Some (double_of_decimal 10 0)),
         exemplo_registro ''Minha Loja'' (Some (double_of_decimal 12 0)),
         exemplo_registro ''Outra'' (Some (double_of_decimal 95 (- 1))),
         exemplo_registro ''Mais Uma'' (Some (double_of_decimal 105 (- 1)))]
        {''minha loja''})
    = [(Sim, [], Some (double_of_decimal 10 0)), (Sim, [], Some (double_of_decimal 10 0)),
       (Nao, Sim, Some (double_of_decimal 10 0)), (Nao, Nao, Some (double_of_decimal 10 0))]"
proof -
  let ?regs = "[exemplo_registro ''MINHA LOJA'' (Some (double_of_decimal 10 0)),
       exemplo_registro ''Minha Loja'' (Some (double_of_decimal 12 0)),
       exemplo_registro ''Outra'' (Some (double_of_decimal 95 (- 1))),
       exemplo_registro ''Mais Uma'' (Some (double_of_decimal 105 (- 1)))]"
  have h: "\<forall>r\<in>set ?regs. nossa {''minha loja''} r \<longrightarrow> Preco_num r \<noteq> Some NaN"
    by code_simp
  have e: "map (\<lambda>c. (E_nossa_loja c, Concorrente_abaixo c, Nosso_menor_preco c))
      (comparar_precos_por_consulta ?regs {''minha loja''})
    = [(Sim, [], Some (double_of_decimal 10 0)), (Sim, [], Some (double_of_decimal 10 0)),
       (Nao, Sim, Some (double_of_decimal 10 0)), (Nao, Nao, Some (double_of_decimal 10 0))]"
    by code_simp
  from comparar_precos_por_consulta_numeros[OF h] e show ?thesis by blast
qed

text \<open>
  Claim C1. The prices that enter the operator minimum are those that pass
  \<open>isinstance(x, (int, float))\<close>, and NaN passes it. NaN is what a missing price is in a
  block read back from the data frame (\<open>to_dict("records")\<close>, line 756). \<open>min\<close> keeps its
  first argument unless a later one is smaller, and no comparison with NaN holds. So with
  the monitored prices NaN and 10.0 in this order the operator minimum is NaN and the
  competitor at 9.5 is tagged \<open>Nao\<close>, where the minimum numeric price is 10.0 and the tag
  should be \<open>Sim\<close>; with the same rows in the order 10.0, NaN the minimum is 10.0 and the
  tag is \<open>Sim\<close>. A row that is not monitored and priced NaN is tagged \<open>Nao\<close>, not the empty
  marker.
\<close>

theorem comparar_precos_por_consulta_nan:
  "map (\<lambda>c. (E_nossa_loja c, Concorrente_abaixo c, Nosso_menor_preco c))
      (comparar_precos_por_consulta
        [exemplo_registro ''MINHA LOJA'' (Some NaN),
         exemplo_registro ''Minha Loja'' (Some (double_of_decimal 10 0)),
         exemplo_registro ''Outra'' (Some (double_of_decimal 95 (- 1)))]
        {''minha loja''})
    = [(Sim, [], Some NaN), (Sim, [], Some NaN), (Nao, Nao, Some NaN)]
   \<and> map (\<lambda>c. (E_nossa_loja c, Concorrente_abaixo c, Nosso_menor_preco c))
      (comparar_precos_por_consulta
        [exemplo_registro ''Minha Loja'' (Some (double_of_decimal 10 0)),
         exemplo_registro ''MINHA LOJA'' (Some NaN),
         exemplo_registro ''Outra'' (Some (double_of_decimal 95 (- 1)))]
        {''minha loja''})
    = [(Sim, [], Some (double_of_decimal 10 0)), (Sim, [], Some (double_of_decimal 10 0)),
       (Nao, Sim, Some (double_of_decimal 10 0))]
   \<and> map (\<lambda>c. (E_nossa_loja c, Concorrente_abaixo c, Nosso_menor_preco c))
      (comparar_precos_por_consulta
        [exemplo_registro ''Minha Loja'' (Some (double_of_decimal 10 0)),
         exemplo_registro ''Outra'' (Some NaN)]
        {''minha loja''})
    = [(Sim, [], Some (double_of_decimal 10 0)), (Nao, Nao, Some (double_of_decimal 10 0))]
   \<and> fless (double_of_decimal 95 (- 1)) (double_of_decimal 10 0)"
proof -
  have a: "map (\<lambda>c. (E_nossa_loja c, Concorrente_abaixo c, Nosso_menor_preco c))
      (comparar_precos_por_consulta
        [exemplo_registro ''MINHA LOJA'' (Some NaN),
         exemplo_registro ''Minha Loja'' (Some (double_of_decimal 10 0)),
         exemplo_registro ''Outra'' (Some (double_of_decimal 95 (- 1)))]
        {''minha loja''})
    = [(Sim, [], Some NaN), (Sim, [], Some NaN), (Nao, Nao, Some NaN)]"
    by code_simp
  have b: "map (\<lambda>c. (E_nossa_loja c, Concorrente_abaixo c, Nosso_menor_preco c))
      (comparar_precos_por_consulta
        [exemplo_registro ''Minha Loja'' (Some (double_of_decimal 10 0)),
         exemplo_registro ''MINHA LOJA'' (Some NaN),
         exemplo_registro ''Outra'' (Some (double_of_decimal 95 (- 1)))]
        {''minha loja''})
    = [(Sim, [], Some (double_of_decimal 10 0)), (Sim, [], Some (double_of_decimal 10 0)),
       (Nao, Sim, Some (double_of_decimal 10 0))]"
    by code_simp
  have c: "map (\<lambda>c. (E_nossa_loja c, Concorrente_abaixo c, Nosso_menor_preco c))
      (comparar_precos_por_consulta
        [exemplo_registro ''Minha Loja'' (Some (double_of_decimal 10 0)),
         exemplo_registro ''Outra'' (Some NaN)]
        {''minha loja''})
    = [(Sim, [], Some (double_of_decimal 10 0)), (Nao, Nao, Some (double_of_decimal 10 0))]"
    by code_simp
  have d: "fless (double_of_decimal 95 (- 1)) (double_of_decimal 10 0)"
    by code_simp
  from a b c d show ?thesis by (simp only: simp_thms)
qed


subsection \<open>Ranking\<close>

lemma fkey_neg_less: "(- fst (fkey x), - snd (fkey x)) < (- fst (fkey y), - snd (fkey y)) \<longleftrightarrow> fkey y < fkey x"
  by (cases "fkey x"; cases "fkey y") (auto simp: less_prod_def)

lemma fkey_neg_eq: "(- fst (fkey x), - snd (fkey x)) = (- fst (fkey y), - snd (fkey y)) \<longleftrightarrow> fkey x = fkey y"
  by (cases "fkey x"; cases "fkey y") auto

lemma desc_float_less: "desc_float (Nota_media a) < desc_float (Nota_media b) \<longleftrightarrow> nota_antes a b"
  using fkey_neg_less[of "the (Nota_media a)" "the (Nota_media b)"]
  by (auto simp: desc_float_def nota_antes_def sem_nota_def less_prod_def split: option.splits)

lemma desc_float_eq: "desc_float (Nota_media a) = desc_float (Nota_media b) \<longleftrightarrow> nota_igual a b"
  using fkey_neg_eq[of "the (Nota_media a)" "the (Nota_media b)"]
  by (auto simp: desc_float_def nota_igual_def sem_nota_def split: option.splits)

lemma desc_int_less: "desc_int (N_avaliacoes a) < desc_int (N_avaliacoes b) \<longleftrightarrow> aval_antes a b"
  by (auto simp: desc_int_def aval_antes_def less_prod_def split: option.splits)

lemma desc_int_eq: "desc_int (N_avaliacoes a) = desc_int (N_avaliacoes b) \<longleftrightarrow> N_avaliacoes a = N_avaliacoes b"
  by (auto simp: desc_int_def split: option.splits)

lemma lex4_le:
  fixes a a' :: "'a::linorder" and b b' :: "'b::linorder"
    and c c' :: "'c::linorder" and d d' :: "'d::linorder"
  shows "(a, b, c, d) \<le> (a', b', c', d') \<longleftrightarrow>
     (a < a' \<or> (a = a' \<and> (b < b' \<or> (b = b' \<and> (c < c' \<or> (c = c' \<and> (d < d' \<or> d = d')))))))"
  by (auto simp: less_eq_prod_def less_prod_def)

lemma chave_le: "chave a \<le> chave b \<longleftrightarrow> antes_ou_igual a b"
  unfolding chave_def lex4_le antes_ou_igual_def desc_float_less desc_float_eq
    desc_int_less desc_int_eq ..

lemma chave_eq: "chave a = chave b \<longleftrightarrow> mesma_chave a b"
  unfolding chave_def mesma_chave_def prod.inject desc_float_eq desc_int_eq ..

text \<open>
  Claim C3. The final order is a rearrangement of the accumulated rows in which each row
  stands before or level with every later one: by term ascending, then by the sponsorship
  text ascending (\<open>Nao\<close> before \<open>Sim\<close>), then by rating descending with the missing ratings
  last, then by review count descending with the missing counts last. The rows that agree
  with a given row on the four columns come out in the order they went in.
\<close>

theorem ordenar_stable:
  "mset (ordenar todos) = mset todos
   \<and> sorted_wrt antes_ou_igual (ordenar todos)
   \<and> filter (mesma_chave r) (ordenar todos) = filter (mesma_chave r) todos
   \<and> Nao < Sim"
proof -
  have "sorted (map chave (ordenar todos))"
    by (simp add: ordenar_def)
  then have s: "sorted_wrt antes_ou_igual (ordenar todos)"
    by (simp add: sorted_map chave_le)
  have "filter (\<lambda>y. chave y = chave r) (ordenar todos) = filter (\<lambda>y. chave y = chave r) todos"
    unfolding ordenar_def by (rule sort_key_stable)
  moreover have "(\<lambda>y. chave y = chave r) = mesma_chave r"
    by (auto simp: chave_eq[symmetric])
  ultimately have f: "filter (mesma_chave r) (ordenar todos) = filter (mesma_chave r) todos"
    by simp
  have n: "Nao < Sim" by (simp add: Nao_def Sim_def)
  show ?thesis using s f n by (simp add: ordenar_def)
qed

subsection \<open>\<open>re.finditer\<close> and \<open>re.sub\<close>, position by position\<close>

lemma scan_all_starts: "m \<in> set (scan_all ic t r starts nxt) \<Longrightarrow> fst m \<in> set starts"
  by (induction starts arbitrary: nxt) (auto split: if_splits list.splits)

lemma scan_all_nxt:
  "\<forall>x\<in>set starts. nxt \<le> x \<Longrightarrow> scan_all ic t r starts nxt = scan_all ic t r starts 0"
proof (induction starts)
  case Nil
  show ?case by simp
next
  case (Cons i starts)
  then have ge: "\<not> i < nxt" and ih: "scan_all ic t r starts nxt = scan_all ic t r starts 0"
    by auto
  show ?case
  proof (cases "rx_match ic t r (i, [])")
    case Nil
    with ge ih show ?thesis by simp
  next
    case (Cons m other)
    obtain j g where "m = (j, g)" by (cases m)
    with Cons ge show ?thesis by simp
  qed
qed

lemma scan_all_skip:
  "i \<le> nxt \<Longrightarrow> scan_all ic t r [i..<n] nxt = scan_all ic t r [nxt..<n] nxt"
proof (induction "nxt - i" arbitrary: i)
  case 0
  then show ?case by simp
next
  case (Suc d)
  then have lt: "i < nxt" and d: "d = nxt - Suc i" by simp_all
  show ?case
  proof (cases "i < n")
    case True
    then have "[i..<n] = i # [Suc i..<n]" by (simp add: upt_conv_Cons)
    then have "scan_all ic t r [i..<n] nxt = scan_all ic t r [Suc i..<n] nxt"
      using lt by simp
    also have "\<dots> = scan_all ic t r [nxt..<n] nxt"
      using Suc.hyps(1)[OF d] lt by simp
    finally show ?thesis .
  next
    case False
    with lt show ?thesis by simp
  qed
qed

lemma scan_all_from:
  "scan_all ic t r [Suc i..<n] (max j (Suc i)) = scan_all ic t r [max j (Suc i)..<n] 0"
proof -
  have "scan_all ic t r [Suc i..<n] (max j (Suc i)) = scan_all ic t r [max j (Suc i)..<n] (max j (Suc i))"
    by (rule scan_all_skip) simp
  also have "\<dots> = scan_all ic t r [max j (Suc i)..<n] 0"
    by (rule scan_all_nxt) simp
  finally show ?thesis .
qed

lemma scan_all_unroll:
  assumes "i < n"
  shows "scan_all ic t r [i..<n] 0 =
     (case rx_match ic t r (i, []) of
        [] \<Rightarrow> scan_all ic t r [Suc i..<n] 0
      | (j, g) # other \<Rightarrow> (i, j, g) # scan_all ic t r [max j (Suc i)..<n] 0)"
proof -
  from assms have e: "[i..<n] = i # [Suc i..<n]"
    by (simp add: upt_conv_Cons)
  show ?thesis
  proof (cases "rx_match ic t r (i, [])")
    case Nil
    then show ?thesis unfolding e by simp
  next
    case (Cons m other)
    obtain j g where "m = (j, g)" by (cases m)
    with Cons show ?thesis unfolding e by (simp add: scan_all_from)
  qed
qed

lemma slice_split: "k \<le> k' \<Longrightarrow> k' \<le> a \<Longrightarrow> slice t k a = slice t k k' @ slice t k' a"
proof -
  assume a: "k \<le> k'" "k' \<le> a"
  then have "a - k = (k' - k) + (a - k')" by simp
  then have "take (a - k) (drop k t) = take (k' - k) (drop k t) @ take (a - k') (drop (k' - k) (drop k t))"
    by (simp only: take_add)
  with a show ?thesis by (simp add: slice_def)
qed

lemma slice_drop: "k \<le> k' \<Longrightarrow> drop k t = slice t k k' @ drop k' t"
proof -
  assume a: "k \<le> k'"
  then have "drop k' t = drop (k' - k) (drop k t)" by simp
  then show ?thesis by (simp only: slice_def append_take_drop_id)
qed

lemma splice_shift:
  assumes "k \<le> k'" "\<forall>m\<in>set ms. k' \<le> fst m"
  shows "splice t new k ms = slice t k k' @ splice t new k' ms"
proof (cases ms)
  case Nil
  with assms(1) show ?thesis by (simp add: slice_drop[symmetric])
next
  case (Cons m ms')
  obtain a b g where m: "m = (a, b, g)" by (cases m)
  with Cons assms(2) have "k' \<le> a" by simp
  from slice_split[OF assms(1) this] Cons m show ?thesis by simp
qed

lemma scan_all_ge: "\<forall>m\<in>set (scan_all ic t r [i..<n] nxt). i \<le> fst m"
  using scan_all_starts[of _ ic t r "[i..<n]" nxt] by auto

lemma slice_one: "i < length t \<Longrightarrow> slice t i (Suc i) = [t ! i]"
  by (simp add: slice_def take_Suc_conv_app_nth hd_drop_conv_nth take_Suc)

text \<open>No match at \<open>i\<close>: the character is copied.\<close>

lemma splice_miss:
  assumes "i < length t" "i < n" "rx_match ic t r (i, []) = []"
  shows "splice t new i (scan_all ic t r [i..<n] 0)
       = t ! i # splice t new (Suc i) (scan_all ic t r [Suc i..<n] 0)"
proof -
  have "scan_all ic t r [i..<n] 0 = scan_all ic t r [Suc i..<n] 0"
    using scan_all_unroll[OF assms(2), of ic t r] assms(3) by simp
  moreover have "splice t new i (scan_all ic t r [Suc i..<n] 0)
      = slice t i (Suc i) @ splice t new (Suc i) (scan_all ic t r [Suc i..<n] 0)"
    using scan_all_ge[of ic t r "Suc i" n 0] by (intro splice_shift) simp_all
  ultimately show ?thesis using assms(1) by (simp add: slice_one)
qed

text \<open>A match from \<open>i\<close> to \<open>j\<close>, not empty: the replacement, and on from \<open>j\<close>.\<close>

lemma splice_hit:
  assumes "i < j" "i < n" "rx_match ic t r (i, []) = (j, g) # other"
  shows "splice t new i (scan_all ic t r [i..<n] 0)
       = new @ splice t new j (scan_all ic t r [j..<n] 0)"
proof -
  from assms(1) have "max j (Suc i) = j" by simp
  then have "scan_all ic t r [i..<n] 0 = (i, j, g) # scan_all ic t r [j..<n] 0"
    using scan_all_unroll[OF assms(2), of ic t r] assms(3) by simp
  then show ?thesis by (simp add: slice_def)
qed

subsection \<open>The whitespace pattern\<close>

lemma scan_all_none:
  "\<forall>p\<in>set starts. rx_match ic t r (p, []) = [] \<Longrightarrow> scan_all ic t r starts nxt = []"
  by (induction starts) simp_all

lemma cls_ok_Space: "cls_ok False [Space] c = py_isspace c"
  by (simp add: cls_ok_def)

lemma rx_spaces_miss:
  assumes "length t \<le> i \<or> \<not> py_isspace (t ! i)"
  shows "rx_match False t rx_spaces (i, []) = []"
proof -
  have "takeWhile py_isspace (drop i t) = []"
  proof (cases "length t \<le> i")
    case True
    then show ?thesis by simp
  next
    case False
    then have "drop i t = t ! i # drop (Suc i) t" by (simp add: Cons_nth_drop_Suc)
    with assms False show ?thesis by simp
  qed
  then show ?thesis
    by (simp add: rx_spaces_def rep_ends_def cls_ok_Space[abs_def])
qed

lemma rx_spaces_hit:
  assumes "i < length t" "py_isspace (t ! i)"
  shows "\<exists>other. rx_match False t rx_spaces (i, [])
           = (i + length (takeWhile py_isspace (drop i t)), []) # other"
proof -
  define k where "k = length (takeWhile py_isspace (drop i t))"
  from assms have "drop i t = t ! i # drop (Suc i) t" by (simp add: Cons_nth_drop_Suc)
  with assms(2) have "0 < k" by (simp add: k_def)
  then obtain k' where k': "k = Suc k'" by (cases k) auto
  have "rev [1..<Suc k] = k # rev [1..<k]" using k' by simp
  then show ?thesis
    using \<open>0 < k\<close>
    by (simp add: rx_spaces_def rep_ends_def cls_ok_Space[abs_def] k_def[symmetric] Let_def
        del: upt_Suc)
qed

lemma re_sub_spaces_from:
  assumes "length t \<le> n"
  shows "i \<le> length t \<Longrightarrow>
    splice t '' '' i (scan_all False t rx_spaces [i..<Suc n] 0) = juntar_espacos (drop i t)"
proof (induction "length t - i" arbitrary: i rule: less_induct)
  case less
  show ?case
  proof (cases "i = length t")
    case True
    have "scan_all False t rx_spaces [i..<Suc n] 0 = []"
    proof (rule scan_all_none, rule ballI)
      fix p assume "p \<in> set [i..<Suc n]"
      then have "i \<le> p" by (simp del: upt_Suc)
      with True have "length t \<le> p" by simp
      then show "rx_match False t rx_spaces (p, []) = []" by (simp add: rx_spaces_miss)
    qed
    with True show ?thesis by (simp add: juntar_espacos.simps)
  next
    case False
    with less.prems have lt: "i < length t" by simp
    with assms have ltn: "i < Suc n" by simp
    have d: "drop i t = t ! i # drop (Suc i) t" using lt by (simp add: Cons_nth_drop_Suc)
    show ?thesis
    proof (cases "py_isspace (t ! i)")
      case False
      then have m: "rx_match False t rx_spaces (i, []) = []" by (simp add: rx_spaces_miss)
      have ih: "splice t '' '' (Suc i) (scan_all False t rx_spaces [Suc i..<Suc n] 0)
          = juntar_espacos (drop (Suc i) t)"
        using lt by (intro less.hyps) simp_all
      have "juntar_espacos (drop i t) = t ! i # juntar_espacos (drop (Suc i) t)"
        using False by (subst juntar_espacos.simps) (simp add: d)
      with splice_miss[OF lt ltn m, of "'' ''"] ih show ?thesis by simp
    next
      case True
      define j where "j = i + length (takeWhile py_isspace (drop i t))"
      from rx_spaces_hit[OF lt True] obtain other
        where m: "rx_match False t rx_spaces (i, []) = (j, []) # other"
        by (auto simp: j_def)
      have "0 < length (takeWhile py_isspace (drop i t))" using True by (simp add: d)
      then have ij: "i < j" by (simp add: j_def)
      have "length (takeWhile py_isspace (drop i t)) \<le> length (drop i t)"
        by (rule length_takeWhile_le)
      then have jl: "j \<le> length t" using lt by (simp add: j_def)
      have dj: "drop j t = dropWhile py_isspace (drop i t)"
        by (simp add: j_def dropWhile_eq_drop add.commute)
      have ih: "splice t '' '' j (scan_all False t rx_spaces [j..<Suc n] 0)
          = juntar_espacos (drop j t)"
        using jl ij lt by (intro less.hyps) simp_all
      have "juntar_espacos (drop i t) = CHR '' '' # juntar_espacos (dropWhile py_isspace (drop i t))"
        using True by (subst juntar_espacos.simps) (simp add: d)
      with splice_hit[OF ij ltn m, of "'' ''"] ih dj show ?thesis by simp
    qed
  qed
qed

lemma re_sub_spaces: "re_sub False rx_spaces '' '' t = juntar_espacos t"
  using re_sub_spaces_from[of t "length t" 0]
  by (simp add: re_sub_def re_finditer_def del: upt_Suc)

subsection \<open>The stop-word pattern\<close>

lemma char_le_int: "(c \<le> d) = ((of_char c :: int) \<le> of_char d)"
proof -
  have "(of_char c :: int) = int (of_char c)" "(of_char d :: int) = int (of_char d)"
    by (simp_all add: of_nat_of_char)
  then show ?thesis by (simp add: less_eq_char_def)
qed

lemma of_char_shift:
  "0 \<le> of_char c + k \<Longrightarrow> of_char c + k < 256 \<Longrightarrow> (of_char (shift_char c k) :: int) = of_char c + k"
  by (simp add: shift_char_def)

lemma char_eq_int: "(c = d) = ((of_char c :: int) = of_char d)"
  by simp

lemma upper1_not_lower:
  "is_lower_az x \<or> is_lower_latin x \<Longrightarrow> is_upper_az (upper1 x) \<or> is_upper_latin (upper1 x)"
proof -
  assume a: "is_lower_az x \<or> is_lower_latin x"
  then have r: "(97 \<le> (of_char x :: int) \<and> (of_char x :: int) \<le> 122)
      \<or> (224 \<le> (of_char x :: int) \<and> (of_char x :: int) \<le> 254 \<and> (of_char x :: int) \<noteq> 247)"
    by (auto simp: is_lower_az_def is_lower_latin_def in_range_def char_le_int char_eq_int)
  then have s: "(of_char (shift_char x (- 32)) :: int) = of_char x - 32"
    using of_char_shift[of x "- 32"] by auto
  from a have "upper1 x = shift_char x (- 32)" by (simp add: upper1_def)
  with r s show ?thesis
    by (auto simp: is_upper_az_def is_upper_latin_def in_range_def char_le_int char_eq_int)
qed

lemma upper_is_word: "is_upper_az x \<or> is_upper_latin x \<Longrightarrow> is_word x"
  by (auto simp: is_word_def is_upper_latin_def in_range_def char_le_int char_eq_int)

lemma lower1_word: "is_word (lower1 x) \<Longrightarrow> is_word x"
  using upper_is_word[of x] by (auto simp: lower1_def split: if_splits)

text \<open>With the flag \<open>re.I\<close> a character matches a letter that is not a capital when its
  lowercase is that letter.\<close>

lemma cls_ok_Lit:
  assumes "\<not> is_upper_az c \<and> \<not> is_upper_latin c"
  shows "cls_ok True [Lit c] x = (lower1 x = c)"
proof -
  have "upper1 x = c \<Longrightarrow> x = c"
    using upper1_not_lower[of x] assms by (auto simp: upper1_def split: if_splits)
  moreover have "x = c \<Longrightarrow> lower1 x = c" using assms by (simp add: lower1_def)
  ultimately show ?thesis by (auto simp: cls_ok_def)
qed

lemma cls_ok_two: "cls_ok ic [a, b] x = (cls_ok ic [a] x \<or> cls_ok ic [b] x)"
  by (auto simp: cls_ok_def)

text \<open>A sequence of classes matches the characters from \<open>i\<close> one by one.\<close>

lemma classes_match:
  "rx_match ic t (foldr Seq (map Ch css) r) (i, g) =
     (if list_all2 (cls_ok ic) css (take (length css) (drop i t))
      then rx_match ic t r (i + length css, g) else [])"
proof (induction css arbitrary: i)
  case Nil
  show ?case by simp
next
  case (Cons cs css)
  show ?case
  proof (cases "i < length t")
    case True
    then have d: "drop i t = t ! i # drop (Suc i) t" by (simp add: Cons_nth_drop_Suc)
    show ?thesis using True by (simp add: d Cons.IH)
  next
    case False
    then show ?thesis by simp
  qed
qed

lemma concat_map_concat:
  "concat (map f (concat xss)) = concat (map (\<lambda>q. concat (map f q)) xss)"
  by (induction xss) simp_all

lemma seq_flat: "rx_match ic t (Seq (foldr Seq xs Eps) r) p = rx_match ic t (foldr Seq xs r) p"
proof (induction xs arbitrary: p)
  case Nil
  show ?case by (cases p) simp
next
  case (Cons x xs)
  obtain i g where p: "p = (i, g)" by (cases p)
  have "rx_match ic t (Seq (foldr Seq (x # xs) Eps) r) p
      = concat (map (rx_match ic t r) (concat (map (rx_match ic t (foldr Seq xs Eps)) (rx_match ic t x p))))"
    by (simp add: p)
  also have "\<dots> = concat (map (\<lambda>q. concat (map (rx_match ic t r) (rx_match ic t (foldr Seq xs Eps) q)))
                       (rx_match ic t x p))"
    by (simp add: concat_map_concat comp_def)
  also have "\<dots> = concat (map (\<lambda>q. rx_match ic t (Seq (foldr Seq xs Eps) r) q) (rx_match ic t x p))"
  proof -
    have "\<And>q. concat (map (rx_match ic t r) (rx_match ic t (foldr Seq xs Eps) q))
        = rx_match ic t (Seq (foldr Seq xs Eps) r) q"
      subgoal for q by (cases q) simp
      done
    then show ?thesis by simp
  qed
  also have "\<dots> = concat (map (rx_match ic t (foldr Seq xs r)) (rx_match ic t x p))"
    by (simp add: Cons.IH)
  finally show ?case by (simp add: p)
qed

lemma lits_lower:
  assumes "\<forall>c\<in>set w. \<not> is_upper_az c \<and> \<not> is_upper_latin c"
  shows "list_all2 (cls_ok True) (map (\<lambda>c. [Lit c]) w) ys = (py_lower ys = w)"
proof -
  have "list_all2 (cls_ok True) (map (\<lambda>c. [Lit c]) w) ys
      = list_all2 (\<lambda>c x. cls_ok True [Lit c] x) w ys"
    by (simp add: list_all2_map1)
  also have "\<dots> = list_all2 (\<lambda>c x. c = lower1 x) w ys"
    by (rule list.rel_cong) (use assms cls_ok_Lit in auto)
  also have "\<dots> = list_all2 (=) w (map lower1 ys)"
    by (simp add: list_all2_map2)
  also have "\<dots> = (py_lower ys = w)"
    by (auto simp: list_all2_eq[symmetric] py_lower_def)
  finally show ?thesis .
qed

lemma lits_two:
  "list_all2 (cls_ok ic) (as @ [p, q] # bs) ys
     = (list_all2 (cls_ok ic) (as @ [p] # bs) ys \<or> list_all2 (cls_ok ic) (as @ [q] # bs) ys)"
proof (induction as arbitrary: ys)
  case Nil
  show ?case by (cases ys) (auto simp: cls_ok_two)
next
  case (Cons a as)
  then show ?case by (cases ys) auto
qed

lemma foldr_Seq_cong:
  assumes "\<And>q. rx_match ic t r q = rx_match ic t r' q"
  shows "rx_match ic t (foldr Seq xs r) p = rx_match ic t (foldr Seq xs r') p"
proof (induction xs arbitrary: p)
  case Nil
  show ?case by (simp add: assms)
next
  case (Cons x xs)
  obtain i g where p: "p = (i, g)" by (cases p)
  have "rx_match ic t (foldr Seq xs r) = rx_match ic t (foldr Seq xs r')"
    by (rule ext) (rule Cons.IH)
  then show ?case by (simp add: p)
qed

text \<open>A literal, with the case ignored.\<close>

lemma lit_lower:
  assumes "\<forall>c\<in>set w. \<not> is_upper_az c \<and> \<not> is_upper_latin c"
  shows "rx_match True t (lit w) (i, g) =
     (if py_lower (take (length w) (drop i t)) = w then [(i + length w, g)] else [])"
proof -
  have "lit w = foldr Seq (map Ch (map (\<lambda>c. [Lit c]) w)) Eps"
    by (simp add: lit_def seqs_def comp_def)
  then show ?thesis
    using classes_match[of True t "map (\<lambda>c. [Lit c]) w" Eps i g] lits_lower[OF assms]
    by simp
qed

text \<open>Two literals with a class of two letters between them.\<close>

lemma lit_two_lower:
  assumes "\<forall>c\<in>set (a @ x # y # b). \<not> is_upper_az c \<and> \<not> is_upper_latin c"
  shows "rx_match True t (seqs [lit a, Ch [Lit x, Lit y], lit b]) (i, g) =
     (if py_lower (take (Suc (length a + length b)) (drop i t)) = a @ x # b
         \<or> py_lower (take (Suc (length a + length b)) (drop i t)) = a @ y # b
      then [(i + Suc (length a + length b), g)] else [])"
proof -
  let ?L = "\<lambda>c. [Lit c]"
  let ?css = "map ?L a @ [Lit x, Lit y] # map ?L b"
  have la: "lit a = foldr Seq (map Ch (map ?L a)) Eps" and lb: "lit b = foldr Seq (map Ch (map ?L b)) Eps"
    by (simp_all add: lit_def seqs_def comp_def)
  have tail: "rx_match True t (Seq (Ch [Lit x, Lit y]) (Seq (lit b) Eps)) q
            = rx_match True t (foldr Seq (map Ch ([Lit x, Lit y] # map ?L b)) Eps) q" for q
  proof -
    obtain j h where q: "q = (j, h)" by (cases q)
    have feq: "rx_match True t (Seq (lit b) Eps) = rx_match True t (lit b)"
      by (rule ext) (simp only: lb seq_flat)
    have "foldr Seq (map Ch ([Lit x, Lit y] # map ?L b)) Eps = Seq (Ch [Lit x, Lit y]) (lit b)"
      by (simp add: lb)
    then show ?thesis by (simp add: q feq)
  qed
  have "rx_match True t (seqs [lit a, Ch [Lit x, Lit y], lit b]) (i, g)
      = rx_match True t (Seq (lit a) (Seq (Ch [Lit x, Lit y]) (Seq (lit b) Eps))) (i, g)"
    by (simp add: seqs_def)
  also have "\<dots> = rx_match True t (foldr Seq (map Ch (map ?L a)) (Seq (Ch [Lit x, Lit y]) (Seq (lit b) Eps))) (i, g)"
    unfolding la by (rule seq_flat)
  also have "\<dots> = rx_match True t (foldr Seq (map Ch (map ?L a))
                       (foldr Seq (map Ch ([Lit x, Lit y] # map ?L b)) Eps)) (i, g)"
    by (rule foldr_Seq_cong) (rule tail)
  also have "\<dots> = rx_match True t (foldr Seq (map Ch ?css) Eps) (i, g)"
    by simp
  also have "\<dots> = (if list_all2 (cls_ok True) ?css (take (length ?css) (drop i t))
                     then [(i + length ?css, g)] else [])"
    using classes_match[of True t ?css Eps i g] by simp
  finally have m: "rx_match True t (seqs [lit a, Ch [Lit x, Lit y], lit b]) (i, g)
      = (if list_all2 (cls_ok True) ?css (take (length ?css) (drop i t))
         then [(i + length ?css, g)] else [])" .
  have nx: "\<forall>c\<in>set (a @ x # b). \<not> is_upper_az c \<and> \<not> is_upper_latin c"
    and ny: "\<forall>c\<in>set (a @ y # b). \<not> is_upper_az c \<and> \<not> is_upper_latin c"
    using assms by auto
  have "list_all2 (cls_ok True) ?css ys = (py_lower ys = a @ x # b \<or> py_lower ys = a @ y # b)" for ys
    using lits_two[of True "map ?L a" "Lit x" "Lit y" "map ?L b" ys]
      lits_lower[OF nx, of ys] lits_lower[OF ny, of ys] by simp
  with m show ?thesis by simp
qed

lemma alts_match:
  "rx_match ic t (alts r rs) (i, g) = rx_match ic t r (i, g) @ concat (map (\<lambda>a. rx_match ic t a (i, g)) rs)"
  unfolding alts_def by (induction rs arbitrary: r) simp_all

lemma stop_words_lower: "\<forall>w\<in>set STOP_WORDS. \<forall>c\<in>set w. \<not> is_upper_az c \<and> \<not> is_upper_latin c"
proof -
  have "list_all (list_all (\<lambda>c. \<not> is_upper_az c \<and> \<not> is_upper_latin c)) STOP_WORDS"
    by code_simp
  then show ?thesis by (simp add: list_all_iff)
qed

lemma stop_words_word: "\<forall>w\<in>set STOP_WORDS. w \<noteq> [] \<and> (\<forall>c\<in>set w. is_word c)"
proof -
  have "list_all (\<lambda>w. w \<noteq> [] \<and> list_all is_word w) STOP_WORDS"
    by code_simp
  then show ?thesis by (simp add: list_all_iff)
qed

lemma scan_all_gap:
  assumes "j \<le> n"
  shows "i \<le> j \<Longrightarrow> \<forall>p. i \<le> p \<and> p < j \<longrightarrow> rx_match ic t r (p, []) = [] \<Longrightarrow>
    scan_all ic t r [i..<n] 0 = scan_all ic t r [j..<n] 0"
proof (induction "j - i" arbitrary: i)
  case 0
  then show ?case by simp
next
  case (Suc d)
  then have lt: "i < j" and d: "d = j - Suc i" by simp_all
  from assms lt have "i < n" by simp
  moreover from Suc.prems(2) lt have "rx_match ic t r (i, []) = []" by simp
  ultimately have "scan_all ic t r [i..<n] 0 = scan_all ic t r [Suc i..<n] 0"
    using scan_all_unroll[of i n ic t r] by simp
  also have "\<dots> = scan_all ic t r [j..<n] 0"
    using Suc.hyps(1)[OF d] lt Suc.prems(2) by simp
  finally show ?case .
qed

lemma splice_gap:
  assumes "i \<le> j" "j \<le> n" "\<forall>p. i \<le> p \<and> p < j \<longrightarrow> rx_match ic t r (p, []) = []"
  shows "splice t new i (scan_all ic t r [i..<n] 0)
       = slice t i j @ splice t new j (scan_all ic t r [j..<n] 0)"
proof -
  have "scan_all ic t r [i..<n] 0 = scan_all ic t r [j..<n] 0"
    using scan_all_gap[OF assms(2) assms(1) assms(3)] .
  moreover have "splice t new i (scan_all ic t r [j..<n] 0)
      = slice t i j @ splice t new j (scan_all ic t r [j..<n] 0)"
    using scan_all_ge[of ic t r j n 0] assms(1) by (intro splice_shift) simp_all
  ultimately show ?thesis by simp
qed

lemma two_words_set:
  fixes a b :: "'a list" and f :: "nat \<Rightarrow> 'a list"
  assumes "length a = k" "length b = k"
  shows "set (if f k = a \<or> f k = b then [(i + k, g)] else [])
      = {(i + length sw, g) | sw. sw \<in> set [a, b] \<and> f (length sw) = sw}"
proof (rule set_eqI, rule iffI)
  fix x
  assume "x \<in> set (if f k = a \<or> f k = b then [(i + k, g)] else [])"
  then have c: "f k = a \<or> f k = b" and x: "x = (i + k, g)"
    by (simp_all split: if_splits)
  from c obtain sw where "sw = a \<or> sw = b" "f k = sw" by blast
  moreover from this assms have "length sw = k" by blast
  ultimately have "x = (i + length sw, g) \<and> sw \<in> set [a, b] \<and> f (length sw) = sw"
    using x by simp
  then show "x \<in> {(i + length sw, g) | sw. sw \<in> set [a, b] \<and> f (length sw) = sw}"
    by blast
next
  fix x
  assume "x \<in> {(i + length sw, g) | sw. sw \<in> set [a, b] \<and> f (length sw) = sw}"
  then obtain sw where sw: "x = (i + length sw, g)" "sw = a \<or> sw = b" "f (length sw) = sw"
    by auto
  from sw(2) assms have "length sw = k" by blast
  with sw show "x \<in> set (if f k = a \<or> f k = b then [(i + k, g)] else [])"
    by auto
qed

lemma lits_set:
  assumes "\<forall>w\<in>set ws. \<forall>c\<in>set w. \<not> is_upper_az c \<and> \<not> is_upper_latin c"
  shows "set (concat (map (\<lambda>w. rx_match True t (lit w) (i, g)) ws))
       = {(i + length sw, g) | sw. sw \<in> set ws \<and> py_lower (take (length sw) (drop i t)) = sw}"
proof -
  have w: "rx_match True t (lit sw) (i, g)
      = (if py_lower (take (length sw) (drop i t)) = sw then [(i + length sw, g)] else [])"
    if "sw \<in> set ws" for sw
    using that assms by (intro lit_lower) blast
  show ?thesis
  proof (rule set_eqI)
    fix x
    have "x \<in> set (concat (map (\<lambda>w. rx_match True t (lit w) (i, g)) ws))
        = (\<exists>sw\<in>set ws. x \<in> set (rx_match True t (lit sw) (i, g)))"
      by auto
    also have "\<dots> = (\<exists>sw\<in>set ws. py_lower (take (length sw) (drop i t)) = sw \<and> x = (i + length sw, g))"
      by (rule bex_cong) (auto simp: w)
    also have "\<dots> = (x \<in> {(i + length sw, g) | sw. sw \<in> set ws \<and> py_lower (take (length sw) (drop i t)) = sw})"
      by blast
    finally show "x \<in> set (concat (map (\<lambda>w. rx_match True t (lit w) (i, g)) ws))
        = (x \<in> {(i + length sw, g) | sw. sw \<in> set ws \<and> py_lower (take (length sw) (drop i t)) = sw})" .
  qed
qed

text \<open>The alternation of the stop words from a position: a stop word that the text holds
  there, the case ignored.\<close>

lemma stop_alt_set:
  "set (rx_match True t
          (alts (lit ''oleo'')
             [lit (CHR 0xF3 # ''leo''), lit ''lubrificante'', lit ''spray'', lit ''de'',
              lit ''do'', lit ''da'', lit ''para'', lit ''off'', lit ''road'',
              seqs [lit ''sint'', Ch [Lit (CHR 0xE9), Lit (CHR ''e'')], lit ''tico''],
              lit ''4t'']) (i, g))
   = {(i + length sw, g) | sw. sw \<in> set STOP_WORDS \<and> py_lower (take (length sw) (drop i t)) = sw}"
proof -
  define ws1 where "ws1 = [''oleo'', CHR 0xF3 # ''leo'', ''lubrificante'', ''spray'', ''de'',
              ''do'', ''da'', ''para'', ''off'', ''road'']"
  define ws2 where "ws2 = [''sint'' @ CHR 0xE9 # ''tico'', ''sint'' @ CHR ''e'' # ''tico'']"
  define ws3 where "ws3 = [''4t'']"
  define sint where "sint = seqs [lit ''sint'', Ch [Lit (CHR 0xE9), Lit (CHR ''e'')], lit ''tico'']"
  have sw: "STOP_WORDS = ws1 @ ws2 @ ws3"
    by (simp add: STOP_WORDS_def ws1_def ws2_def ws3_def)
  have n1: "\<forall>w\<in>set ws1. \<forall>c\<in>set w. \<not> is_upper_az c \<and> \<not> is_upper_latin c"
    and n3: "\<forall>w\<in>set ws3. \<forall>c\<in>set w. \<not> is_upper_az c \<and> \<not> is_upper_latin c"
    using stop_words_lower unfolding sw by auto
  have "list_all (\<lambda>c. \<not> is_upper_az c \<and> \<not> is_upper_latin c) (''sint'' @ CHR 0xE9 # CHR ''e'' # ''tico'')"
    by code_simp
  then have "\<forall>c\<in>set (''sint'' @ CHR 0xE9 # CHR ''e'' # ''tico''). \<not> is_upper_az c \<and> \<not> is_upper_latin c"
    unfolding list_all_iff .
  note two = lit_two_lower[OF this, of t i g]
  have s: "set (rx_match True t sint (i, g))
      = {(i + length sw, g) | sw. sw \<in> set ws2 \<and> py_lower (take (length sw) (drop i t)) = sw}"
  proof -
    define a where "a = ''sint'' @ CHR 0xE9 # ''tico''"
    define b where "b = ''sint'' @ CHR ''e'' # ''tico''"
    define k where "k = Suc (length ''sint'' + length ''tico'')"
    have len: "length a = k" "length b = k" by (simp_all add: a_def b_def k_def)
    have m: "rx_match True t sint (i, g)
        = (if py_lower (take k (drop i t)) = a \<or> py_lower (take k (drop i t)) = b
           then [(i + k, g)] else [])"
      using two unfolding sint_def a_def b_def k_def .
    have w: "ws2 = [a, b]" by (simp add: ws2_def a_def b_def)
    show ?thesis unfolding m w
      using two_words_set[OF len, of "\<lambda>n. py_lower (take n (drop i t))" i g] .
  qed
  have "rx_match True t
          (alts (lit ''oleo'')
             [lit (CHR 0xF3 # ''leo''), lit ''lubrificante'', lit ''spray'', lit ''de'',
              lit ''do'', lit ''da'', lit ''para'', lit ''off'', lit ''road'', sint, lit ''4t'']) (i, g)
      = concat (map (\<lambda>w. rx_match True t (lit w) (i, g)) ws1) @ rx_match True t sint (i, g)
        @ concat (map (\<lambda>w. rx_match True t (lit w) (i, g)) ws3)"
    unfolding alts_match by (simp add: ws1_def ws3_def)
  then have "set (rx_match True t
          (alts (lit ''oleo'')
             [lit (CHR 0xF3 # ''leo''), lit ''lubrificante'', lit ''spray'', lit ''de'',
              lit ''do'', lit ''da'', lit ''para'', lit ''off'', lit ''road'', sint, lit ''4t'']) (i, g))
      = {(i + length sw, g) | sw. sw \<in> set ws1 \<and> py_lower (take (length sw) (drop i t)) = sw}
        \<union> {(i + length sw, g) | sw. sw \<in> set ws2 \<and> py_lower (take (length sw) (drop i t)) = sw}
        \<union> {(i + length sw, g) | sw. sw \<in> set ws3 \<and> py_lower (take (length sw) (drop i t)) = sw}"
    by (simp only: set_append lits_set[OF n1] lits_set[OF n3] s Un_assoc)
  also have "\<dots> = {(i + length sw, g) | sw. sw \<in> set STOP_WORDS \<and> py_lower (take (length sw) (drop i t)) = sw}"
    unfolding sw by auto
  finally show ?thesis unfolding sint_def .
qed

lemma concat_Eps: "concat (map (rx_match ic t Eps) ps) = ps"
  by (induction ps) auto

text \<open>A match of the stop-word pattern: a word boundary, a stop word, a word boundary.\<close>

lemma rx_stop_mem:
  "((j, h) \<in> set (rx_match True t rx_stop (i, [])))
     = (word_boundary t i \<and> word_boundary t j \<and> h = [(1, i, j)]
        \<and> (\<exists>sw\<in>set STOP_WORDS. j = i + length sw \<and> py_lower (take (length sw) (drop i t)) = sw))"
proof -
  define alt where "alt = alts (lit ''oleo'')
             [lit (CHR 0xF3 # ''leo''), lit ''lubrificante'', lit ''spray'', lit ''de'',
              lit ''do'', lit ''da'', lit ''para'', lit ''off'', lit ''road'',
              seqs [lit ''sint'', Ch [Lit (CHR 0xE9), Lit (CHR ''e'')], lit ''tico''],
              lit ''4t'']"
  have rs: "rx_stop = Seq WordB (Seq (Grp 1 alt) (Seq WordB Eps))"
    by (simp add: rx_stop_def alt_def seqs_def)
  have a: "set (rx_match True t alt (i, []))
      = {(i + length sw, []) | sw. sw \<in> set STOP_WORDS \<and> py_lower (take (length sw) (drop i t)) = sw}"
    unfolding alt_def by (rule stop_alt_set)
  have m: "rx_match True t rx_stop (i, []) =
      (if word_boundary t i
       then concat (map (\<lambda>p. if word_boundary t (fst p) then [(fst p, (1, i, fst p) # snd p)] else [])
                     (rx_match True t alt (i, [])))
       else [])"
    unfolding rs by (simp add: case_prod_unfold comp_def concat_Eps del: One_nat_def)
  have "((j, h) \<in> set (rx_match True t rx_stop (i, [])))
      = (word_boundary t i \<and> (\<exists>p\<in>set (rx_match True t alt (i, [])).
            word_boundary t (fst p) \<and> j = fst p \<and> h = (1, i, fst p) # snd p))"
    unfolding m by (auto split: if_splits)
  also have "\<dots> = (word_boundary t i \<and> (\<exists>p\<in>{(i + length sw, []) | sw. sw \<in> set STOP_WORDS
                           \<and> py_lower (take (length sw) (drop i t)) = sw}.
            word_boundary t (fst p) \<and> j = fst p \<and> h = (1, i, fst p) # snd p))"
    unfolding a ..
  also have "\<dots> = (word_boundary t i \<and> word_boundary t j \<and> h = [(1, i, j)]
        \<and> (\<exists>sw\<in>set STOP_WORDS. j = i + length sw \<and> py_lower (take (length sw) (drop i t)) = sw))"
    by fastforce
  finally show ?thesis .
qed

lemma word_at_drop: "word_at t (i + k) = (k < length (drop i t) \<and> is_word (drop i t ! k))"
  by (auto simp: word_at_def)

lemma takeWhile_take:
  assumes "\<forall>c\<in>set (take n d). P c" "n < length d \<longrightarrow> \<not> P (d ! n)"
  shows "takeWhile P d = take n d"
proof -
  have "takeWhile P (drop n d) = []"
  proof (cases "n < length d")
    case True
    then have "drop n d = d ! n # drop (Suc n) d" by (simp add: Cons_nth_drop_Suc)
    with assms(2) True show ?thesis by simp
  next
    case False
    then show ?thesis by simp
  qed
  moreover have "takeWhile P (take n d @ drop n d) = take n d @ takeWhile P (drop n d)"
    by (rule takeWhile_append2) (use assms(1) in blast)
  ultimately show ?thesis by simp
qed

text \<open>A stop word stands between word boundaries exactly when it is the whole word.\<close>

lemma stop_word_at:
  assumes "sw \<in> set STOP_WORDS"
  shows "(py_lower (take (length sw) (drop i t)) = sw \<and> word_boundary t (i + length sw))
       = (py_lower (takeWhile is_word (drop i t)) = sw)"
proof -
  define d where "d = drop i t"
  define n where "n = length sw"
  from assms stop_words_word have pos: "0 < n" and ws: "\<forall>c\<in>set sw. is_word c"
    by (auto simp: n_def)
  have wb: "word_boundary t (i + n) = (word_at t (i + (n - 1)) \<noteq> word_at t (i + n))"
    using pos by (simp add: word_boundary_def)
  have wa: "word_at t (i + k) = (k < length d \<and> is_word (d ! k))" for k
    unfolding d_def by (rule word_at_drop)
  show ?thesis
    unfolding d_def[symmetric] n_def[symmetric]
  proof
    assume l: "py_lower (take n d) = sw \<and> word_boundary t (i + n)"
    then have len: "length (take n d) = n" and m: "map lower1 (take n d) = sw"
      using n_def by (auto simp: py_lower_def dest: arg_cong[where f = length])
    then have nd: "n \<le> length d" by simp
    have allw: "\<forall>c\<in>set (take n d). is_word c"
    proof
      fix c assume "c \<in> set (take n d)"
      then have "lower1 c \<in> set (map lower1 (take n d))" by simp
      with m ws have "is_word (lower1 c)" by simp
      then show "is_word c" by (rule lower1_word)
    qed
    have "d ! (n - 1) = take n d ! (n - 1)" using pos by simp
    moreover have "take n d ! (n - 1) \<in> set (take n d)" using pos len by (intro nth_mem) simp
    ultimately have "is_word (d ! (n - 1))" using allw by simp
    with wa[of "n - 1"] have "word_at t (i + (n - 1))" using pos nd by simp
    with l have "\<not> word_at t (i + n)" by (simp add: wb)
    then have "n < length d \<longrightarrow> \<not> is_word (d ! n)" by (simp add: wa)
    from takeWhile_take[OF allw this] m show "py_lower (takeWhile is_word d) = sw"
      by (simp add: py_lower_def)
  next
    assume r: "py_lower (takeWhile is_word d) = sw"
    define w where "w = takeWhile is_word d"
    from r have len: "length w = n" by (auto simp: w_def n_def py_lower_def dest: arg_cong[where f = length])
    have tk: "take n d = w" unfolding w_def len[symmetric, unfolded w_def]
      by (rule takeWhile_eq_take[symmetric])
    have lw: "length w \<le> length d" unfolding w_def by (rule length_takeWhile_le)
    have "w ! (n - 1) \<in> set w" using pos len by (intro nth_mem) simp
    then have "is_word (w ! (n - 1))" unfolding w_def by (rule set_takeWhileD[THEN conjunct2])
    moreover have "w ! (n - 1) = d ! (n - 1)"
      unfolding w_def using pos len[unfolded w_def] by (intro takeWhile_nth) simp
    ultimately have a1: "word_at t (i + (n - 1))" using wa[of "n - 1"] pos len lw by simp
    have a2: "\<not> word_at t (i + n)"
    proof (cases "n < length d")
      case True
      then have "\<not> is_word (d ! length (takeWhile is_word d))"
        using len[unfolded w_def] by (intro nth_length_takeWhile) simp
      then show ?thesis using len[unfolded w_def] by (simp add: wa)
    next
      case False
      then show ?thesis by (simp add: wa)
    qed
    from a1 a2 tk r show "py_lower (take n d) = sw \<and> word_boundary t (i + n)"
      by (simp add: wb w_def)
  qed
qed

lemma stop_miss_other:
  assumes "length t \<le> i \<or> \<not> is_word (t ! i)"
  shows "rx_match True t rx_stop (i, []) = []"
proof (rule ccontr)
  assume "rx_match True t rx_stop (i, []) \<noteq> []"
  then obtain j h where "(j, h) \<in> set (rx_match True t rx_stop (i, []))"
    by (cases "rx_match True t rx_stop (i, [])") auto
  then obtain sw where sw: "sw \<in> set STOP_WORDS" "py_lower (take (length sw) (drop i t)) = sw"
    unfolding rx_stop_mem by blast
  have ne: "sw \<noteq> []" and allw: "\<forall>c\<in>set sw. is_word c"
    using sw(1) stop_words_word by auto
  obtain c cs where c0: "sw = c # cs"
  proof (cases sw)
    case Nil
    with ne show ?thesis by simp
  next
    case (Cons a as)
    then show ?thesis by (rule that)
  qed
  with allw have c: "sw = c # cs" "is_word c" by simp_all
  show False
  proof (cases "length t \<le> i")
    case True
    with sw(2) c show False by (simp add: py_lower_def)
  next
    case False
    then have "drop i t = t ! i # drop (Suc i) t" by (simp add: Cons_nth_drop_Suc)
    with sw(2) c have "lower1 (t ! i) = c" by (simp add: py_lower_def)
    with c(2) have "is_word (t ! i)" by (auto intro: lower1_word)
    with assms False show False by simp
  qed
qed

lemma stop_miss_inside:
  assumes "0 < i" "i < length t" "is_word (t ! (i - 1))" "is_word (t ! i)"
  shows "rx_match True t rx_stop (i, []) = []"
proof -
  from assms have "\<not> word_boundary t i"
    by (simp add: word_boundary_def word_at_def)
  then show ?thesis by (simp add: rx_stop_def seqs_def)
qed

lemma stop_word_start:
  assumes "i < length t" "is_word (t ! i)" "i = 0 \<or> \<not> is_word (t ! (i - 1))"
    and "(j, h) \<in> set (rx_match True t rx_stop (i, []))"
  shows "palavra_vazia (takeWhile is_word (drop i t)) \<and> j = i + length (takeWhile is_word (drop i t))"
proof -
  from assms(4) obtain sw where sw: "sw \<in> set STOP_WORDS" "j = i + length sw"
    "py_lower (take (length sw) (drop i t)) = sw" and wb: "word_boundary t j"
    unfolding rx_stop_mem by blast
  from stop_word_at[OF sw(1), of i t] sw(2,3) wb
  have e: "py_lower (takeWhile is_word (drop i t)) = sw" by simp
  then have "length (takeWhile is_word (drop i t)) = length sw"
    by (auto simp: py_lower_def dest: arg_cong[where f = length])
  with e sw show ?thesis by (simp add: palavra_vazia_def)
qed

lemma stop_hit:
  assumes "i < length t" "is_word (t ! i)" "i = 0 \<or> \<not> is_word (t ! (i - 1))"
    and "palavra_vazia (takeWhile is_word (drop i t))"
  shows "\<exists>h other. rx_match True t rx_stop (i, [])
           = (i + length (takeWhile is_word (drop i t)), h) # other"
proof -
  define sw where "sw = py_lower (takeWhile is_word (drop i t))"
  from assms(4) have m: "sw \<in> set STOP_WORDS" by (simp add: palavra_vazia_def sw_def)
  from stop_word_at[OF m, of i t]
  have "py_lower (take (length sw) (drop i t)) = sw" "word_boundary t (i + length sw)"
    by (simp_all add: sw_def)
  moreover from assms(1-3) have "word_boundary t i"
    by (auto simp: word_boundary_def word_at_def)
  ultimately have "(i + length sw, [(1, i, i + length sw)]) \<in> set (rx_match True t rx_stop (i, []))"
    unfolding rx_stop_mem using m by blast
  then obtain p other where l: "rx_match True t rx_stop (i, []) = p # other"
    by (cases "rx_match True t rx_stop (i, [])") auto
  obtain j h where p: "p = (j, h)" by (cases p)
  with l have "(j, h) \<in> set (rx_match True t rx_stop (i, []))" by simp
  from stop_word_start[OF assms(1-3) this] l p show ?thesis by simp
qed

lemma stop_miss_word:
  assumes "i < length t" "is_word (t ! i)" "i = 0 \<or> \<not> is_word (t ! (i - 1))"
    and "\<not> palavra_vazia (takeWhile is_word (drop i t))"
  shows "rx_match True t rx_stop (i, []) = []"
proof (rule ccontr)
  assume "rx_match True t rx_stop (i, []) \<noteq> []"
  then obtain j h where "(j, h) \<in> set (rx_match True t rx_stop (i, []))"
    by (cases "rx_match True t rx_stop (i, [])") auto
  from stop_word_start[OF assms(1-3) this] assms(4) show False by simp
qed

text \<open>The substitution of the stop words from a position that is not inside a word.\<close>

lemma re_sub_stop_from:
  assumes "length t \<le> n"
  shows "i \<le> length t \<Longrightarrow> \<not> (0 < i \<and> i < length t \<and> is_word (t ! (i - 1)) \<and> is_word (t ! i)) \<Longrightarrow>
    splice t '' '' i (scan_all True t rx_stop [i..<Suc n] 0) = trocar (drop i t)"
proof (induction "length t - i" arbitrary: i rule: less_induct)
  case less
  show ?case
  proof (cases "i = length t")
    case True
    have "scan_all True t rx_stop [i..<Suc n] 0 = []"
    proof (rule scan_all_none, rule ballI)
      fix p assume "p \<in> set [i..<Suc n]"
      then have "i \<le> p" by (simp del: upt_Suc)
      with True have "length t \<le> p" by simp
      then show "rx_match True t rx_stop (p, []) = []" by (simp add: stop_miss_other)
    qed
    with True show ?thesis by (simp add: trocar.simps)
  next
    case False
    with less.prems have lt: "i < length t" by simp
    with assms have ltn: "i < Suc n" by simp
    have d: "drop i t = t ! i # drop (Suc i) t" using lt by (simp add: Cons_nth_drop_Suc)
    show ?thesis
    proof (cases "is_word (t ! i)")
      case False
      then have m: "rx_match True t rx_stop (i, []) = []" by (simp add: stop_miss_other)
      have ih: "splice t '' '' (Suc i) (scan_all True t rx_stop [Suc i..<Suc n] 0)
          = trocar (drop (Suc i) t)"
        using lt False by (intro less.hyps) simp_all
      have "trocar (drop i t) = t ! i # trocar (drop (Suc i) t)"
        using False by (subst trocar.simps) (simp add: d)
      with splice_miss[OF lt ltn m, of "'' ''"] ih show ?thesis by simp
    next
      case True
      with less.prems(2) lt have st: "i = 0 \<or> \<not> is_word (t ! (i - 1))" by auto
      define w where "w = takeWhile is_word (drop i t)"
      define j where "j = i + length w"
      have wpos: "0 < length w" using True by (simp add: w_def d)
      then have ij: "i < j" by (simp add: j_def)
      have "length w \<le> length (drop i t)" unfolding w_def by (rule length_takeWhile_le)
      then have jl: "j \<le> length t" using lt by (simp add: j_def)
      have dj: "drop j t = dropWhile is_word (drop i t)"
        by (simp add: j_def w_def dropWhile_eq_drop add.commute)
      have sl: "slice t i j = w"
        by (simp add: slice_def j_def w_def takeWhile_eq_take[symmetric])
      have wlast: "is_word (t ! (j - 1))"
      proof -
        have "w ! (length w - 1) \<in> set w" using wpos by (intro nth_mem) simp
        then have "is_word (w ! (length w - 1))" unfolding w_def by (rule set_takeWhileD[THEN conjunct2])
        moreover have "w ! (length w - 1) = drop i t ! (length w - 1)"
          unfolding w_def using wpos[unfolded w_def] by (intro takeWhile_nth) simp
        moreover have "drop i t ! (length w - 1) = t ! (i + (length w - 1))"
          using lt by (intro nth_drop) simp
        ultimately show ?thesis using wpos by (simp add: j_def)
      qed
      have wend: "j < length t \<longrightarrow> \<not> is_word (t ! j)"
      proof
        assume "j < length t"
        then have "length (takeWhile is_word (drop i t)) < length (drop i t)"
          by (simp add: j_def w_def)
        then have "\<not> is_word (drop i t ! length (takeWhile is_word (drop i t)))"
          by (rule nth_length_takeWhile)
        then show "\<not> is_word (t ! j)" using lt by (simp add: j_def w_def)
      qed
      have inv: "\<not> (0 < j \<and> j < length t \<and> is_word (t ! (j - 1)) \<and> is_word (t ! j))"
        using wend by simp
      have ih: "splice t '' '' j (scan_all True t rx_stop [j..<Suc n] 0) = trocar (drop j t)"
        using jl ij lt inv by (intro less.hyps) simp_all
      show ?thesis
      proof (cases "palavra_vazia w")
        case True
        from stop_hit[OF lt \<open>is_word (t ! i)\<close> st True[unfolded w_def]]
        obtain h other where m: "rx_match True t rx_stop (i, []) = (j, h) # other"
          by (auto simp: j_def w_def)
        have "trocar (drop i t) = '' '' @ trocar (dropWhile is_word (drop i t))"
          using \<open>is_word (t ! i)\<close> True by (subst trocar.simps) (simp add: d w_def)
        with splice_hit[OF ij ltn m, of "'' ''"] ih dj show ?thesis by simp
      next
        case False
        have none: "\<forall>p. i \<le> p \<and> p < j \<longrightarrow> rx_match True t rx_stop (p, []) = []"
        proof (intro allI impI)
          fix p assume p: "i \<le> p \<and> p < j"
          show "rx_match True t rx_stop (p, []) = []"
          proof (cases "p = i")
            case True
            with stop_miss_word[OF lt \<open>is_word (t ! i)\<close> st False[unfolded w_def]] show ?thesis by simp
          next
            case False
            with p have ip: "i < p" "p < j" by simp_all
            have inw: "is_word (t ! q)" if "i \<le> q" "q < j" for q
            proof -
              from that have k: "q - i < length w" by (simp add: j_def)
              then have "w ! (q - i) \<in> set w" by (rule nth_mem)
              then have "is_word (w ! (q - i))" unfolding w_def by (rule set_takeWhileD[THEN conjunct2])
              moreover have "w ! (q - i) = drop i t ! (q - i)"
                unfolding w_def using k[unfolded w_def] by (rule takeWhile_nth)
              moreover have "drop i t ! (q - i) = t ! (i + (q - i))"
                using lt by (intro nth_drop) simp
              ultimately show ?thesis using that by simp
            qed
            from ip have "is_word (t ! (p - 1))" "is_word (t ! p)"
              by (auto intro: inw)
            moreover from ip jl have "0 < p" "p < length t" by simp_all
            ultimately show ?thesis by (intro stop_miss_inside)
          qed
        qed
        have jn: "j \<le> Suc n" using jl assms by simp
        have "trocar (drop i t) = w @ trocar (dropWhile is_word (drop i t))"
          using \<open>is_word (t ! i)\<close> False by (subst trocar.simps) (simp add: d w_def)
        with splice_gap[OF less_imp_le[OF ij] jn none, of "'' ''"] ih dj sl show ?thesis by simp
      qed
    qed
  qed
qed

lemma re_sub_stop: "re_sub True rx_stop '' '' t = trocar t"
  using re_sub_stop_from[of t "length t" 0]
  by (simp add: re_sub_def re_finditer_def del: upt_Suc)

lemma limpar_limpeza: "limpar s = limpeza s"
  by (simp add: limpar_def limpeza_def re_sub_stop re_sub_spaces)

subsection \<open>\<open>title_to_user_query\<close> returns\<close>

lemma is_integer_int: "is_integer v \<Longrightarrow> \<exists>n. py_int_of_float v = Inr n"
  by (cases v) simp_all

lemma capacidade_total: "\<exists>c. capacidade qty unit = Inr c"
proof (cases "py_float qty")
  case (Inl e)
  then show ?thesis by (simp add: capacidade_def)
next
  case (Inr v)
  show ?thesis
  proof (cases "is_integer v")
    case True
    from is_integer_int[OF this] obtain n where "py_int_of_float v = Inr n" ..
    with Inr True show ?thesis by (simp add: capacidade_def)
  next
    case False
    with Inr show ?thesis by (cases "py_int_of_float v") (simp_all add: capacidade_def)
  qed
qed

lemma cap_de_total: "\<exists>c. cap_de up = Inr c"
proof (cases "re_search True rx_cap up")
  case None
  then show ?thesis by (simp add: cap_de_def)
next
  case (Some m)
  obtain c where "capacidade (replace_char (CHR '','') (CHR ''.'') (group up m 1)) (py_upper (group up m 2)) = Inr c"
    using capacidade_total by blast
  with Some show ?thesis by (simp add: cap_de_def)
qed

lemma query_of_total: "\<exists>q. query_of s bu = Inr q"
proof -
  obtain brand up where bu: "bu = (brand, up)" by (cases bu)
  obtain c where "cap_de up = Inr c" using cap_de_total by blast
  with bu show ?thesis by (simp add: query_of_def split: option.split)
qed

lemma title_to_user_query_unfold:
  "title_to_user_query (Some t) =
     (if py_strip t = [] then Inr []
      else query_of (py_strip t) (extract_brand (py_upper (py_strip t))))"
  by (simp add: title_to_user_query_def Let_def)

lemma dropWhile_self: "xs = [] \<or> \<not> P (hd xs) \<Longrightarrow> dropWhile P xs = xs"
  by (cases xs) auto

lemma py_strip_idem: "py_strip (py_strip s) = py_strip s"
proof -
  define a where "a = dropWhile py_isspace s"
  define b where "b = dropWhile py_isspace (rev a)"
  have s: "py_strip s = rev b" by (simp add: py_strip_def a_def b_def)
  have "dropWhile py_isspace (rev b) = rev b"
  proof (rule dropWhile_self, cases "b = []")
    case True
    then show "rev b = [] \<or> \<not> py_isspace (hd (rev b))" by simp
  next
    case False
    have "rev a = takeWhile py_isspace (rev a) @ b" by (simp add: b_def)
    with False have "last (rev a) = last b" by (metis last_appendR)
    moreover from False have "a \<noteq> []" by (auto simp: b_def)
    ultimately have "last b = hd a" by (simp add: last_rev)
    moreover have "\<not> py_isspace (hd a)"
      using \<open>a \<noteq> []\<close> unfolding a_def by (rule hd_dropWhile)
    ultimately show "rev b = [] \<or> \<not> py_isspace (hd (rev b))"
      using False by (simp add: hd_rev)
  qed
  moreover have "dropWhile py_isspace b = b" by (simp add: b_def)
  moreover have "py_strip (rev b) = rev (dropWhile py_isspace (rev (dropWhile py_isspace (rev b))))"
    by (simp add: py_strip_def)
  ultimately have "py_strip (rev b) = rev b" by simp
  then show ?thesis unfolding s .
qed

lemma py_strip_Nil: "py_strip [] = []"
  by (simp add: py_strip_def)

lemma match_brand_title:
  "match_brand bs up0 = Some (brand, up) \<Longrightarrow> \<exists>b\<in>set bs. brand = py_title b"
  by (induction bs) (auto split: if_splits)

lemma brands_strip: "\<forall>b\<in>set brands_sorted. py_strip (py_title b) = py_title b"
proof -
  have "list_all (\<lambda>b. py_strip (py_title b) = py_title b) brands_sorted"
    by code_simp
  then show ?thesis by (simp add: list_all_iff)
qed

text \<open>The brand has no whitespace at its ends.\<close>

lemma extract_brand_strip:
  assumes "extract_brand up0 = (brand, up)"
  shows "py_strip brand = brand"
proof (cases "match_brand brands_sorted up0")
  case None
  with assms show ?thesis
    by (auto simp: extract_brand_def py_strip_idem py_strip_Nil split: option.splits)
next
  case (Some bu)
  obtain b1 u1 where bu: "bu = (b1, u1)" by (cases bu)
  from match_brand_title[OF Some[unfolded bu]] brands_strip
  have s1: "py_strip b1 = b1" by auto
  show ?thesis
  proof (cases "b1 = []")
    case True
    with assms Some bu show ?thesis
      by (auto simp: extract_brand_def py_strip_idem py_strip_Nil split: option.splits)
  next
    case False
    with assms Some bu s1 show ?thesis by (simp add: extract_brand_def)
  qed
qed

lemma compor_worst:
  assumes "tokens_de up = []" "extras_de up = []" "py_strip brand = brand"
  shows "compor s brand up None None = limpar s"
proof (cases "brand = []")
  case True
  with assms(1,2) show ?thesis by (simp add: compor_def nao_vazios_def py_strip_Nil)
next
  case False
  with assms show ?thesis by (simp add: compor_def nao_vazios_def)
qed

text \<open>
  Claim C9. \<open>title_to_user_query\<close> returns a string on every input and raises nothing:
  the conversions that can raise stand inside \<open>try\<close>, and \<open>int(val)\<close> of the litre branch
  is reached only for a float that is an integer. The result depends on the title alone
  (the function reads nothing else but the constant \<open>BRANDS\<close>). \<open>None\<close>, the empty string
  and a title of whitespace give the empty string. When nothing is recognised beyond a
  brand (no code, no token, no viscosity, no capacity) the result is the cleaning of the
  stripped title: its stop words replaced by a space, its runs of whitespace collapsed to
  one space, its ends stripped.
\<close>

theorem title_to_user_query_total:
  "(\<exists>q. title_to_user_query title = Inr q)
   \<and> title_to_user_query None = Inr []
   \<and> title_to_user_query (Some t) =
       (if py_strip t = [] then Inr []
        else query_of (py_strip t) (extract_brand (py_upper (py_strip t))))
   \<and> (py_strip t \<noteq> [] \<and> extract_brand (py_upper (py_strip t)) = (brand, up)
        \<and> re_search False rx_code up = None \<and> tokens_de up = [] \<and> extras_de up = []
        \<and> viscosidade up = None \<and> cap_de up = Inr None
        \<longrightarrow> title_to_user_query (Some t) = Inr (limpeza (py_strip t)))"
proof -
  have total: "\<exists>q. title_to_user_query title = Inr q"
    using query_of_total by (simp add: title_to_user_query_def Let_def)
  have none: "title_to_user_query None = Inr []"
    by (simp add: title_to_user_query_def py_strip_def)
  have worst: "title_to_user_query (Some t) = Inr (limpeza (py_strip t))"
    if "py_strip t \<noteq> []" "extract_brand (py_upper (py_strip t)) = (brand, up)"
      "re_search False rx_code up = None" "tokens_de up = []" "extras_de up = []"
      "viscosidade up = None" "cap_de up = Inr None"
    using that extract_brand_strip[OF that(2)]
    by (simp add: title_to_user_query_unfold query_of_def compor_worst limpar_limpeza)
  show ?thesis
    using total none title_to_user_query_unfold worst by blast
qed

theorem title_to_user_query_total_witness:
  "title_to_user_query (Some ''  Oleo   de  Motor  PARA do  4t '') = Inr ''Motor''
   \<and> extract_brand (py_upper (py_strip ''  Oleo   de  Motor  PARA do  4t ''))
       = (''Oleo'', ''OLEO   DE  MOTOR  PARA DO  4T'')
   \<and> limpeza (py_strip ''  Oleo   de  Motor  PARA do  4t '') = ''Motor''"
proof -
  let ?t = "''  Oleo   de  Motor  PARA do  4t ''"
  let ?up = "''OLEO   DE  MOTOR  PARA DO  4T''"
  have h: "py_strip ?t \<noteq> [] \<and> extract_brand (py_upper (py_strip ?t)) = (''Oleo'', ?up)
        \<and> re_search False rx_code ?up = None \<and> tokens_de ?up = [] \<and> extras_de ?up = []
        \<and> viscosidade ?up = None \<and> cap_de ?up = Inr None"
    by code_simp
  have l: "limpeza (py_strip ?t) = ''Motor''"
    by code_simp
  have "title_to_user_query (Some ?t) = Inr (limpeza (py_strip ?t))"
    using title_to_user_query_total[of _ ?t "''Oleo''" ?up] h by blast
  with l h show ?thesis by (simp only:)
qed

end
